theory Spec2Isabelle
  imports Complex_Main
begin

section \<open>Data model of the crawler (WebCrawler.js)\<close>

text \<open>
  The options object of the constructor. Only the options that the crawl loop reads are
  kept; \<open>timeout\<close> and \<open>userAgent\<close> are handed to the HTTP library unchanged. Numbers are
  integer valued; the constructor ends with \<open>...options\<close>, so any integer (also zero or a
  negative one) can reach the loop.
\<close>

record options =
  maxPages :: int
  delay :: int
  maxDepth :: int
  respectRobots :: bool
  retries :: int
  skipUnauthorized :: bool
  ignoreRestrictions :: bool

text \<open>A queue entry \<open>{ url, depth, parent }\<close>; the seed has \<open>parent: null\<close>.\<close>

record item =
  url :: string
  depth :: int
  parent :: "string option"

text \<open>
  The page record built by \<open>crawlPage\<close>. Of the extractor's fields only those the crawler
  and the file manager read are kept; \<open>links\<close> holds the \<open>url\<close> field of every extracted
  link object.
\<close>

record page =
  page_url :: string
  page_depth :: int
  page_parent :: "string option"
  links :: "string list"
  wordCount :: int

record skip =
  skip_url :: string
  reason :: string
  skip_parent :: "string option"
  statusCode :: "int option"

record failure =
  fail_url :: string
  error :: string
  fail_parent :: "string option"

text \<open>
  What the program does to the outside: it issues a GET request, or it sleeps for a
  number of milliseconds. The history of a session is the list of these events, oldest
  first.
\<close>

datatype event = Request string | Sleep int

text \<open>
  A response as the crawler sees it: the status code, and what \<open>cheerio.load\<close> and
  \<open>DataExtractor\<close> make of its body for the requested URL: the links found (normalised by
  \<open>extractLinks\<close>) with the word count, or the exception they throw, as they do on a body
  that is not text.
\<close>

datatype extraction = Extracted "string list" int | ExtractionError string

record response =
  status :: int
  data :: extraction

datatype outcome = Responded response | NetworkError string

text \<open>The three calls the file manager makes to the file system.\<close>

datatype fs_op = EnsureDirectory | WriteMain | WriteSummary

text \<open>
  The environment of a session. \<open>net\<close> answers a request for a URL, and the answer may
  depend on everything that happened before. \<open>statusMessage\<close> is the message the HTTP
  library puts on the error it raises for a rejected status. \<open>robotsParser\<close> is what the
  robots-parser library makes of a response: the truth value of \<open>isAllowed\<close> on each URL, or
  nothing when it throws. \<open>hostname\<close> and \<open>normalized\<close> are the platform's URL class:
  \<open>new URL(url).hostname\<close>, and the \<open>href\<close> of \<open>new URL(url)\<close> once the fragment is cleared and
  the query sorted; both are nothing when the constructor throws. \<open>fs\<close> tells which calls
  to the file system succeed.
\<close>

record world =
  net :: "event list \<Rightarrow> string \<Rightarrow> outcome"
  statusMessage :: "int \<Rightarrow> string"
  robotsParser :: "response \<Rightarrow> (string \<Rightarrow> bool) option"
  hostname :: "string \<Rightarrow> string option"
  normalized :: "string \<Rightarrow> string option"
  fs :: "fs_op \<Rightarrow> bool"

text \<open>
  The error object caught by the crawler: \<open>error.message\<close> and \<open>error.response?.status\<close>. An
  exception of the extractor is such an object with no response.
\<close>

record axios_error =
  message :: string
  response_status :: "int option"

text \<open>The mutable fields of the \<open>WebCrawler\<close> object, and the history of its effects.\<close>

record crawler =
  visited :: "string set"
  queue :: "item list"
  results :: "page list"
  failedUrls :: "failure list"
  skippedUrls :: "skip list"
  robots :: "(string \<Rightarrow> bool) option"
  history :: "event list"

section \<open>Fetching: validateStatus and makeRequest\<close>

definition validateStatus :: "options \<Rightarrow> int \<Rightarrow> bool" where
  "validateStatus opts st =
     (if ignoreRestrictions opts then 200 \<le> st \<and> st < 600
      else if 200 \<le> st \<and> st < 300 then True
      else if \<not> skipUnauthorized opts then st < 500
      else if st \<in> set [401, 403, 407, 429, 451] then False
      else if st \<in> set [404, 410, 500, 502, 503, 504] then False
      else st < 400)"

text \<open>
  \<open>axios.get\<close>: a response whose status passes \<open>validateStatus\<close> is returned, any other
  response is raised as an error that carries the status, and a failure of the transport
  is raised as an error without a response.
\<close>

definition axios_get :: "options \<Rightarrow> world \<Rightarrow> event list \<Rightarrow> string \<Rightarrow> axios_error + response" where
  "axios_get opts w h u =
     (case net w h u of
        NetworkError m \<Rightarrow> Inl \<lparr>message = m, response_status = None\<rparr>
      | Responded r \<Rightarrow>
          if validateStatus opts (status r) then Inr r
          else Inl \<lparr>message = statusMessage w (status r), response_status = Some (status r)\<rparr>)"

definition noRetryStatuses :: "options \<Rightarrow> int list" where
  "noRetryStatuses opts =
     (if skipUnauthorized opts then [401, 403, 404, 407, 410, 429, 451, 500, 502, 503, 504]
      else [404, 410])"

text \<open>\<open>statusCode && list.includes(statusCode)\<close>: an absent status and the status 0 are falsy.\<close>

definition statusIn :: "int option \<Rightarrow> int list \<Rightarrow> bool" where
  "statusIn sc codes = (case sc of None \<Rightarrow> False | Some c \<Rightarrow> c \<noteq> 0 \<and> c \<in> set codes)"

text \<open>
  \<open>makeRequest(url, retryCount)\<close>. The result is the response or the error thrown, with
  the history extended by the requests made and the back-off sleeps
  \<open>1000 * (retryCount + 1)\<close>.
\<close>

function makeRequest ::
  "options \<Rightarrow> world \<Rightarrow> string \<Rightarrow> int \<Rightarrow> event list \<Rightarrow> (axios_error + response) \<times> event list" where
  "makeRequest opts w u retryCount h =
     (case axios_get opts w h u of
        Inr r \<Rightarrow> (Inr r, h @ [Request u])
      | Inl err \<Rightarrow>
          if ignoreRestrictions opts then
            (if retryCount < retries opts
             then makeRequest opts w u (retryCount + 1)
                    (h @ [Request u, Sleep (1000 * (retryCount + 1))])
             else (Inl err, h @ [Request u]))
          else if statusIn (response_status err) (noRetryStatuses opts)
            then (Inl err, h @ [Request u])
          else if retryCount < retries opts
            then makeRequest opts w u (retryCount + 1)
                   (h @ [Request u, Sleep (1000 * (retryCount + 1))])
          else (Inl err, h @ [Request u]))"
  by pat_completeness auto
termination
  by (relation "measure (\<lambda>(opts, w, u, retryCount, h). nat (retries opts - retryCount))") auto

declare makeRequest.simps [simp del]

section \<open>Classifying an error: handleCrawlError\<close>

definition authRelatedCodes :: "int list" where
  "authRelatedCodes = [401, 403, 407, 429, 451]"

definition skipCodes :: "int list" where
  "skipCodes = [404, 410, 500, 502, 503, 504]"

definition authReasons :: "(int \<times> string) list" where
  "authReasons =
     [(401, ''Unauthorized - Authentication required''),
      (403, ''Forbidden - Access denied''),
      (407, ''Proxy authentication required''),
      (429, ''Too many requests - Rate limited''),
      (451, ''Unavailable for legal reasons'')]"

definition skipReasons :: "(int \<times> string) list" where
  "skipReasons =
     [(404, ''Not found''),
      (410, ''Gone''),
      (500, ''Internal server error''),
      (502, ''Bad gateway''),
      (503, ''Service unavailable''),
      (504, ''Gateway timeout'')]"

text \<open>
  \<open>reasons[statusCode]\<close>. A missing key would give \<open>undefined\<close>; every code of the guarding
  list is a key of its table, so that branch is never taken.
\<close>

definition lookupReason :: "(int \<times> string) list \<Rightarrow> int \<Rightarrow> string" where
  "lookupReason reasons c = (case map_of reasons c of Some r \<Rightarrow> r | None \<Rightarrow> ''undefined'')"

text \<open>\<open>toLowerCase\<close> on the ASCII letters, and \<open>String.prototype.includes\<close>.\<close>

definition lowerChar :: "char \<Rightarrow> char" where
  "lowerChar c =
     (let n = (of_char c :: nat) in if 65 \<le> n \<and> n \<le> 90 then char_of (n + 32) else c)"

definition toLowerCase :: "string \<Rightarrow> string" where
  "toLowerCase s = map lowerChar s"

fun str_includes :: "string \<Rightarrow> string \<Rightarrow> bool" where
  "str_includes [] k = (k = [])"
| "str_includes (c # cs) k = (take (length k) (c # cs) = k \<or> str_includes cs k)"

definition authKeywords :: "string list" where
  "authKeywords = [''unauthorized'', ''forbidden'', ''access denied'', ''authentication'', ''permission'']"

definition pushSkipped :: "crawler \<Rightarrow> string \<Rightarrow> string \<Rightarrow> string option \<Rightarrow> int option \<Rightarrow> crawler" where
  "pushSkipped s u r p sc =
     s\<lparr>skippedUrls := skippedUrls s @ [\<lparr>skip_url = u, reason = r, skip_parent = p, statusCode = sc\<rparr>]\<rparr>"

definition handleCrawlError ::
  "options \<Rightarrow> axios_error \<Rightarrow> string \<Rightarrow> string option \<Rightarrow> crawler \<Rightarrow> bool \<times> crawler" where
  "handleCrawlError opts err u p s =
     (if ignoreRestrictions opts then (False, s)
      else if \<not> skipUnauthorized opts then (False, s)
      else
        (let sc = response_status err in
         if statusIn sc authRelatedCodes then
           (True, pushSkipped s u (lookupReason authReasons (case sc of Some c \<Rightarrow> c | None \<Rightarrow> 0)) p sc)
         else if statusIn sc skipCodes then
           (True, pushSkipped s u (lookupReason skipReasons (case sc of Some c \<Rightarrow> c | None \<Rightarrow> 0)) p sc)
         else if list_ex (str_includes (toLowerCase (message err))) authKeywords then
           (True, pushSkipped s u (''Authorization issue: '' @ message err) p
                    (if sc = Some 0 then None else sc))
         else (False, s)))"

section \<open>The crawl loop\<close>

text \<open>
  \<open>crawlPage\<close> marks the URL as visited, fetches it and extracts the page. The HTTP library
  never returns a falsy response, so the \<open>return null\<close> of the source is not a branch. An
  exception of \<open>cheerio.load\<close> or of the extractor leaves \<open>crawlPage\<close> like an error of the
  request, and is caught by the same \<open>catch\<close> of \<open>processQueue\<close>.
\<close>

definition crawlPage ::
  "options \<Rightarrow> world \<Rightarrow> string \<Rightarrow> int \<Rightarrow> string option \<Rightarrow> crawler \<Rightarrow> (axios_error + page) \<times> crawler" where
  "crawlPage opts w u d p s =
     (let s1 = s\<lparr>visited := insert u (visited s)\<rparr>;
          (r, h) = makeRequest opts w u 0 (history s1);
          s2 = s1\<lparr>history := h\<rparr>
      in case r of
           Inl err \<Rightarrow> (Inl err, s2)
         | Inr resp \<Rightarrow>
             (case data resp of
                ExtractionError m \<Rightarrow> (Inl \<lparr>message = m, response_status = None\<rparr>, s2)
              | Extracted ls n \<Rightarrow>
                  (Inr \<lparr>page_url = u, page_depth = d, page_parent = p, links = ls,
                        wordCount = n\<rparr>, s2)))"

definition isInQueue :: "crawler \<Rightarrow> string \<Rightarrow> bool" where
  "isInQueue s u = (u \<in> set (map url (queue s)))"

definition isSkipped :: "crawler \<Rightarrow> string \<Rightarrow> bool" where
  "isSkipped s u = (u \<in> set (map skip_url (skippedUrls s)))"

fun addLinksToQueue :: "string list \<Rightarrow> int \<Rightarrow> string \<Rightarrow> crawler \<Rightarrow> crawler" where
  "addLinksToQueue [] d p s = s"
| "addLinksToQueue (l # ls) d p s =
     addLinksToQueue ls d p
       (if l \<notin> visited s \<and> \<not> isInQueue s l \<and> \<not> isSkipped s l
        then s\<lparr>queue := queue s @ [\<lparr>url = l, depth = d, parent = Some p\<rparr>]\<rparr>
        else s)"

definition robotsBlocked :: "options \<Rightarrow> crawler \<Rightarrow> string \<Rightarrow> bool" where
  "robotsBlocked opts s u =
     (\<not> ignoreRestrictions opts \<and>
      (case robots s of None \<Rightarrow> False | Some isAllowed \<Rightarrow> \<not> isAllowed u))"

text \<open>
  The \<open>try\<close>/\<open>catch\<close> of the loop body, for an entry that passed the three guards: a page
  is appended and its links are queued, or the error becomes a skip or a failure record.
\<close>

definition crawlItem :: "options \<Rightarrow> world \<Rightarrow> string \<Rightarrow> int \<Rightarrow> string option \<Rightarrow> crawler \<Rightarrow> crawler" where
  "crawlItem opts w u d p s =
     (case crawlPage opts w u d p s of
        (Inr pageData, s1) \<Rightarrow>
          addLinksToQueue (links pageData) (d + 1) u (s1\<lparr>results := results s1 @ [pageData]\<rparr>)
      | (Inl err, s1) \<Rightarrow>
          (case (if ignoreRestrictions opts then (False, s1) else handleCrawlError opts err u p s1) of
             (shouldSkip, s2) \<Rightarrow>
               if shouldSkip then s2
               else s2\<lparr>failedUrls := failedUrls s2 @
                          [\<lparr>fail_url = u, error = message err, fail_parent = p\<rparr>]\<rparr>))"

definition sleepDelay :: "options \<Rightarrow> crawler \<Rightarrow> crawler" where
  "sleepDelay opts s =
     (if delay opts > 0 then s\<lparr>history := history s @ [Sleep (delay opts)]\<rparr> else s)"

text \<open>
  One iteration of the \<open>while\<close> loop of \<open>processQueue\<close>: \<open>queue.shift()\<close>, the three guards
  that \<open>continue\<close>, the crawl, and the delay between requests.
\<close>

definition processItem :: "options \<Rightarrow> world \<Rightarrow> crawler \<Rightarrow> crawler" where
  "processItem opts w s =
     (case queue s of
        [] \<Rightarrow> s
      | it # rest \<Rightarrow>
          (let s0 = s\<lparr>queue := rest\<rparr> in
           if url it \<in> visited s0 then s0
           else if depth it > maxDepth opts then s0
           else if robotsBlocked opts s0 (url it)
             then pushSkipped s0 (url it) ''robots.txt blocked'' (parent it) None
           else sleepDelay opts (crawlItem opts w (url it) (depth it) (parent it) s0)))"

text \<open>
  Facts about one iteration that the termination of the loop rests on: an iteration
  either appends a page, or leaves the pages alone and shortens the queue.
\<close>

lemma crawlPage_fields:
  "queue (snd (crawlPage opts w u d p s)) = queue s"
  "results (snd (crawlPage opts w u d p s)) = results s"
  "failedUrls (snd (crawlPage opts w u d p s)) = failedUrls s"
  "skippedUrls (snd (crawlPage opts w u d p s)) = skippedUrls s"
  "robots (snd (crawlPage opts w u d p s)) = robots s"
  "visited (snd (crawlPage opts w u d p s)) = insert u (visited s)"
  by (simp_all add: crawlPage_def Let_def split: prod.splits sum.splits extraction.splits)

lemma crawlPage_Inr:
  "crawlPage opts w u d p s = (Inr pg, s1) \<Longrightarrow> page_url pg = u \<and> page_depth pg = d \<and> page_parent pg = p"
  by (auto simp add: crawlPage_def Let_def split: prod.splits sum.splits extraction.splits)

lemma handleCrawlError_fields:
  "queue (snd (handleCrawlError opts err u p s)) = queue s"
  "results (snd (handleCrawlError opts err u p s)) = results s"
  "failedUrls (snd (handleCrawlError opts err u p s)) = failedUrls s"
  "robots (snd (handleCrawlError opts err u p s)) = robots s"
  "visited (snd (handleCrawlError opts err u p s)) = visited s"
  "history (snd (handleCrawlError opts err u p s)) = history s"
  by (simp_all add: handleCrawlError_def pushSkipped_def Let_def)

lemma addLinksToQueue_fields:
  "results (addLinksToQueue ls d p s) = results s"
  "failedUrls (addLinksToQueue ls d p s) = failedUrls s"
  "skippedUrls (addLinksToQueue ls d p s) = skippedUrls s"
  "robots (addLinksToQueue ls d p s) = robots s"
  "visited (addLinksToQueue ls d p s) = visited s"
  "history (addLinksToQueue ls d p s) = history s"
  by (induction ls d p s rule: addLinksToQueue.induct, simp_all)

lemma crawlItem_Inr:
  "crawlPage opts w u d p s = (Inr pg, s1) \<Longrightarrow>
   crawlItem opts w u d p s =
     addLinksToQueue (links pg) (d + 1) u (s1\<lparr>results := results s1 @ [pg]\<rparr>)"
  by (simp add: crawlItem_def)

lemma crawlItem_Inl_ignore:
  "crawlPage opts w u d p s = (Inl err, s1) \<Longrightarrow> ignoreRestrictions opts \<Longrightarrow>
   crawlItem opts w u d p s =
     s1\<lparr>failedUrls := failedUrls s1 @ [\<lparr>fail_url = u, error = message err, fail_parent = p\<rparr>]\<rparr>"
  by (simp add: crawlItem_def)

lemma crawlItem_Inl_skip:
  "crawlPage opts w u d p s = (Inl err, s1) \<Longrightarrow> \<not> ignoreRestrictions opts \<Longrightarrow>
   handleCrawlError opts err u p s1 = (True, s2) \<Longrightarrow>
   crawlItem opts w u d p s = s2"
  by (simp add: crawlItem_def)

lemma crawlItem_Inl_fail:
  "crawlPage opts w u d p s = (Inl err, s1) \<Longrightarrow> \<not> ignoreRestrictions opts \<Longrightarrow>
   handleCrawlError opts err u p s1 = (False, s2) \<Longrightarrow>
   crawlItem opts w u d p s =
     s2\<lparr>failedUrls := failedUrls s2 @ [\<lparr>fail_url = u, error = message err, fail_parent = p\<rparr>]\<rparr>"
  by (simp add: crawlItem_def)

lemma crawlItem_progress:
  "length (results (crawlItem opts w u d p s)) = Suc (length (results s)) \<or>
   (results (crawlItem opts w u d p s) = results s \<and> queue (crawlItem opts w u d p s) = queue s)"
proof (cases "crawlPage opts w u d p s")
  case (Pair r s1)
  have f1: "results s1 = results s" "queue s1 = queue s"
    using crawlPage_fields(1,2)[of opts w u d p s] Pair by simp_all
  show ?thesis
  proof (cases r)
    case (Inr pg)
    then show ?thesis using Pair f1
      by (simp add: crawlItem_Inr addLinksToQueue_fields)
  next
    case (Inl err)
    show ?thesis
    proof (cases "ignoreRestrictions opts")
      case True
      then show ?thesis using Pair Inl f1 by (simp add: crawlItem_Inl_ignore)
    next
      case False
      obtain b s2 where h: "handleCrawlError opts err u p s1 = (b, s2)"
        by (cases "handleCrawlError opts err u p s1")
      have f2: "results s2 = results s1" "queue s2 = queue s1"
        using handleCrawlError_fields(1,2)[of opts err u p s1] h by simp_all
      show ?thesis
      proof (cases b)
        case True
        then show ?thesis using Pair Inl False h f1 f2 by (simp add: crawlItem_Inl_skip)
      next
        case False
        then show ?thesis using Pair Inl \<open>\<not> ignoreRestrictions opts\<close> h f1 f2
          by (simp add: crawlItem_Inl_fail)
      qed
    qed
  qed
qed

lemma sleepDelay_fields:
  "queue (sleepDelay opts s) = queue s"
  "results (sleepDelay opts s) = results s"
  "failedUrls (sleepDelay opts s) = failedUrls s"
  "skippedUrls (sleepDelay opts s) = skippedUrls s"
  "robots (sleepDelay opts s) = robots s"
  "visited (sleepDelay opts s) = visited s"
  by (simp_all add: sleepDelay_def)

lemma processItem_progress:
  assumes "queue s \<noteq> []"
  shows "length (results (processItem opts w s)) = Suc (length (results s)) \<or>
         (results (processItem opts w s) = results s \<and>
          length (queue (processItem opts w s)) < length (queue s))"
proof -
  obtain it rest where q: "queue s = it # rest" using assms by (cases "queue s") auto
  have "length (results (crawlItem opts w (url it) (depth it) (parent it) (s\<lparr>queue := rest\<rparr>))) = Suc (length (results s)) \<or>
   (results (crawlItem opts w (url it) (depth it) (parent it) (s\<lparr>queue := rest\<rparr>)) = results s \<and> queue (crawlItem opts w (url it) (depth it) (parent it) (s\<lparr>queue := rest\<rparr>)) = rest)"
    using crawlItem_progress[of opts w "url it" "depth it" "parent it" "s\<lparr>queue := rest\<rparr>"] by simp
  then show ?thesis using q
    by (auto simp add: processItem_def Let_def pushSkipped_def sleepDelay_fields)
qed

text \<open>
  \<open>processQueue\<close>: the loop runs while the queue is not empty and fewer than \<open>maxPages\<close>
  pages have been stored.
\<close>

function processQueue :: "options \<Rightarrow> world \<Rightarrow> crawler \<Rightarrow> crawler" where
  "processQueue opts w s =
     (if queue s \<noteq> [] \<and> int (length (results s)) < maxPages opts
      then processQueue opts w (processItem opts w s)
      else s)"
  by pat_completeness auto
termination
  apply (relation "measures [\<lambda>(opts, w, s). nat (maxPages opts - int (length (results s))),
                             \<lambda>(opts, w, s). length (queue s)]")
   apply simp
  subgoal for opts w s
    using processItem_progress [of s opts w] by auto
  done

declare processQueue.simps [simp del]


text \<open>The crawler the constructor makes.\<close>

definition newCrawler :: crawler where
  "newCrawler =
     \<lparr>visited = {}, queue = [], results = [], failedUrls = [], skippedUrls = [],
      robots = None, history = []\<rparr>"

text \<open>
  \<open>loadRobotsTxt\<close> requests \<open>baseUrl + '/robots.txt'\<close> once, with the library's own status
  check (2xx) and no retry. Any exception, of the request or of the parser, leaves
  \<open>this.robots\<close> as it was.
\<close>

definition loadRobotsTxt :: "world \<Rightarrow> string \<Rightarrow> crawler \<Rightarrow> crawler" where
  "loadRobotsTxt w baseUrl s =
     (let robotsUrl = baseUrl @ ''/robots.txt'';
          s1 = s\<lparr>history := history s @ [Request robotsUrl]\<rparr>
      in case net w (history s) robotsUrl of
           NetworkError m \<Rightarrow> s1
         | Responded r \<Rightarrow>
             if 200 \<le> status r \<and> status r < 300
             then (case robotsParser w r of None \<Rightarrow> s1 | Some isAllowed \<Rightarrow> s1\<lparr>robots := Some isAllowed\<rparr>)
             else s1)"

text \<open>
  \<open>crawl(startUrl)\<close> on a new crawler, up to the return of \<open>processQueue\<close>: robots.txt is
  loaded only when \<open>respectRobots\<close> is set and \<open>ignoreRestrictions\<close> is not, the seed is queued
  as it was given, at depth 0, and the queue is processed. \<open>crawl\<close> is the crawler at that
  point; \<open>saveResults\<close> is what the source does next, and \<open>crawlAndSave\<close> below is the two
  together.
\<close>

definition startSession :: "options \<Rightarrow> world \<Rightarrow> string \<Rightarrow> crawler" where
  "startSession opts w startUrl =
     (let s = (if respectRobots opts \<and> \<not> ignoreRestrictions opts
               then loadRobotsTxt w startUrl newCrawler else newCrawler)
      in s\<lparr>queue := queue s @ [\<lparr>url = startUrl, depth = 0, parent = None\<rparr>]\<rparr>)"

definition crawl :: "options \<Rightarrow> world \<Rightarrow> string \<Rightarrow> crawler" where
  "crawl opts w startUrl = processQueue opts w (startSession opts w startUrl)"

section \<open>Saving the results: saveResults and the file manager\<close>

text \<open>
  The values a JavaScript number takes when one count is divided by another: a finite
  number (kept exact here), \<open>NaN\<close> for 0 / 0, and \<open>Infinity\<close> for a positive count over 0.
  \<open>Math.round\<close> rounds a finite number half up and returns \<open>NaN\<close> and \<open>Infinity\<close> unchanged;
  \<open>JSON.stringify\<close> writes a number that is not finite as \<open>null\<close>.
\<close>

datatype jsnum = Finite rat | NaN | Infinity

definition js_divide :: "nat \<Rightarrow> nat \<Rightarrow> jsnum" where
  "js_divide a b =
     (if b = 0 then (if a = 0 then NaN else Infinity) else Finite (of_nat a / of_nat b))"

definition Math_round :: "jsnum \<Rightarrow> jsnum" where
  "Math_round x =
     (case x of Finite q \<Rightarrow> Finite (of_int \<lfloor>q + 1 / 2\<rfloor>) | NaN \<Rightarrow> NaN | Infinity \<Rightarrow> Infinity)"



text \<open>
  The object \<open>crawlData\<close> that \<open>saveResults\<close> builds. The fields kept are the counts, the
  three lists, and of the statistics the link total
  (\<open>reduce((sum, page) => sum + page.links.length, 0)\<close>) and the average per page; the
  timestamps and the three histograms, which are computed without a division, are left out.
\<close>

definition sumLinks :: "page list \<Rightarrow> nat" where
  "sumLinks rs = fold (\<lambda>page sum. sum + length (links page)) rs 0"

record statistics =
  totalLinks :: nat
  averageLinksPerPage :: jsnum

record crawlData =
  totalPages :: nat
  failedRequests :: nat
  skippedRequests :: nat
  out_pages :: "page list"
  out_failedUrls :: "failure list"
  out_skippedUrls :: "skip list"
  out_statistics :: statistics

definition buildCrawlData :: "crawler \<Rightarrow> crawlData" where
  "buildCrawlData s =
     \<lparr>totalPages = length (results s),
      failedRequests = length (failedUrls s),
      skippedRequests = length (skippedUrls s),
      out_pages = results s,
      out_failedUrls = failedUrls s,
      out_skippedUrls = skippedUrls s,
      out_statistics =
        \<lparr>totalLinks = sumLinks (results s),
         averageLinksPerPage = Math_round (js_divide (sumLinks (results s)) (length (results s)))\<rparr>\<rparr>"

text \<open>
  The summary file: the statistics of \<open>crawlData\<close> and the ten pages with the most words.
  \<open>saveSummary\<close> sorts \<open>crawlData.pages\<close> in place, and that array is \<open>this.results\<close>: the sort
  (stable, by falling word count) is what the crawler's pages are after the call.
\<close>

record top_page =
  top_url :: string
  top_wordCount :: int
  linksCount :: nat

record summary =
  summary_totalPages :: nat
  summary_statistics :: statistics
  topPages :: "top_page list"
  failedUrlsCount :: nat

definition sortByWordCount :: "page list \<Rightarrow> page list" where
  "sortByWordCount ps = sort_key (\<lambda>page. - wordCount page) ps"

definition buildSummary :: "crawlData \<Rightarrow> page list \<Rightarrow> summary" where
  "buildSummary cd ranked =
     \<lparr>summary_totalPages = totalPages cd,
      summary_statistics = out_statistics cd,
      topPages =
        map (\<lambda>page. \<lparr>top_url = page_url page, top_wordCount = wordCount page,
                       linksCount = length (links page)\<rparr>) (take 10 ranked),
      failedUrlsCount = length (out_failedUrls cd)\<rparr>"

text \<open>
  What a session leaves in the output directory and how \<open>saveCrawlData\<close> ends: with the
  path of the main file, or with an exception. A \<open>null\<close> domain makes \<open>domain.replace\<close> throw a
  \<open>TypeError\<close> after the directory has been made and before anything is written.
\<close>

datatype save_error = TypeError | IOError

record saved =
  thrown :: "save_error option"
  mainFile :: "crawlData option"
  summaryFile :: "summary option"
  pagesAfter :: "page list"

definition saveCrawlData :: "world \<Rightarrow> crawlData \<Rightarrow> string option \<Rightarrow> saved" where
  "saveCrawlData w cd domain =
     (if \<not> fs w EnsureDirectory then
        \<lparr>thrown = Some IOError, mainFile = None, summaryFile = None, pagesAfter = out_pages cd\<rparr>
      else
        (case domain of
           None \<Rightarrow>
             \<lparr>thrown = Some TypeError, mainFile = None, summaryFile = None,
              pagesAfter = out_pages cd\<rparr>
         | Some d \<Rightarrow>
             if \<not> fs w WriteMain then
               \<lparr>thrown = Some IOError, mainFile = None, summaryFile = None,
                pagesAfter = out_pages cd\<rparr>
             else
               (let ranked = sortByWordCount (out_pages cd) in
                if \<not> fs w WriteSummary then
                  \<lparr>thrown = Some IOError, mainFile = Some cd, summaryFile = None,
                   pagesAfter = ranked\<rparr>
                else
                  \<lparr>thrown = None, mainFile = Some cd, summaryFile = Some (buildSummary cd ranked),
                   pagesAfter = ranked\<rparr>)))"

text \<open>
  \<open>UrlUtils.getDomain\<close> and \<open>UrlUtils.normalizeUrl\<close>, each with its \<open>catch\<close>. \<open>crawl\<close> sets
  \<open>this.baseDomain\<close> to \<open>getDomain(startUrl)\<close>; \<open>saveResults\<close> reads it, builds \<open>crawlData\<close> and
  hands both to the file manager. The result is what was written and thrown, and the
  crawler with its pages in the order the file manager left them.
\<close>

definition getDomain :: "world \<Rightarrow> string \<Rightarrow> string option" where
  "getDomain w u = hostname w u"

definition normalizeUrl :: "world \<Rightarrow> string \<Rightarrow> string" where
  "normalizeUrl w u = (case normalized w u of None \<Rightarrow> u | Some n \<Rightarrow> n)"

definition saveResults :: "world \<Rightarrow> string \<Rightarrow> crawler \<Rightarrow> saved \<times> crawler" where
  "saveResults w startUrl s =
     (let out = saveCrawlData w (buildCrawlData s) (getDomain w startUrl)
      in (out, s\<lparr>results := pagesAfter out\<rparr>))"

text \<open>
  The whole of \<open>crawl(startUrl)\<close>: the loop, then \<open>saveResults\<close>. It returns the pages and
  counts of the crawler, unless the file manager has thrown.
\<close>

definition crawlAndSave :: "options \<Rightarrow> world \<Rightarrow> string \<Rightarrow> saved \<times> crawler" where
  "crawlAndSave opts w startUrl = saveResults w startUrl (crawl opts w startUrl)"

section \<open>The session invariant\<close>

text \<open>
  The URLs of the three result lists, the URLs that admission refuses (visited or
  skipped), and the states a session passes through: the state \<open>crawl\<close> starts the loop
  in, and the state after every iteration the loop makes.
\<close>

definition recordUrls :: "crawler \<Rightarrow> string list" where
  "recordUrls s =
     map page_url (results s) @ map skip_url (skippedUrls s) @ map fail_url (failedUrls s)"

definition seen :: "crawler \<Rightarrow> string set" where
  "seen s = visited s \<union> set (map skip_url (skippedUrls s))"

definition session_inv :: "crawler \<Rightarrow> bool" where
  "session_inv s =
     (distinct (map url (queue s)) \<and> distinct (recordUrls s) \<and>
      set (map url (queue s)) \<inter> seen s = {} \<and> set (recordUrls s) \<subseteq> seen s)"

inductive reachable :: "options \<Rightarrow> world \<Rightarrow> string \<Rightarrow> crawler \<Rightarrow> bool"
  for opts :: options and w :: world and startUrl :: string where
  start: "reachable opts w startUrl (startSession opts w startUrl)"
| step: "reachable opts w startUrl s \<Longrightarrow> queue s \<noteq> [] \<Longrightarrow>
         int (length (results s)) < maxPages opts \<Longrightarrow>
         reachable opts w startUrl (processItem opts w s)"

section \<open>Retries and their history\<close>

text \<open>
  A thrown error is retried when restrictions are ignored or its status is not one of
  \<open>noRetryStatuses\<close>. \<open>backoff u i j\<close> is the history of the failed attempts number \<open>i\<close> to
  \<open>j\<close>: each a request followed by a sleep of 1000 ms times its number.
\<close>

definition retryable :: "options \<Rightarrow> axios_error \<Rightarrow> bool" where
  "retryable opts err =
     (ignoreRestrictions opts \<or> \<not> statusIn (response_status err) (noRetryStatuses opts))"

definition backoff :: "string \<Rightarrow> int \<Rightarrow> int \<Rightarrow> event list" where
  "backoff u i j = concat (map (\<lambda>n. [Request u, Sleep (1000 * n)]) [i..j])"

section \<open>Links in the order of discovery\<close>

text \<open>A list of links without the later repeats of a link.\<close>

definition firstOccurrences :: "string list \<Rightarrow> string list" where
  "firstOccurrences ls = rev (remdups (rev ls))"

section \<open>Sample sites and options\<close>

text \<open>
  The operating modes, and a host \<open>h\<close> whose URLs parse, with no robots.txt and a disk
  that can be written; \<open>answers\<close> is what its server sends.
\<close>

definition modeOptions :: "bool \<Rightarrow> bool \<Rightarrow> options" where
  "modeOptions ignoreAll skipAuth =
     \<lparr>maxPages = 10, delay = 0, maxDepth = 3, respectRobots = False, retries = 3,
      skipUnauthorized = skipAuth, ignoreRestrictions = ignoreAll\<rparr>"

definition sampleWorld :: "(event list \<Rightarrow> string \<Rightarrow> outcome) \<Rightarrow> world" where
  "sampleWorld answers =
     \<lparr>net = answers, statusMessage = (\<lambda>c. ''Request failed''), robotsParser = (\<lambda>r. None),
      hostname = (\<lambda>u. Some ''h''), normalized = (\<lambda>u. Some u), fs = (\<lambda>call. True)\<rparr>"

text \<open>A site that answers every request with one status and a page without links.\<close>

definition statusWorld :: "int \<Rightarrow> world" where
  "statusWorld c = sampleWorld (\<lambda>h u. Responded \<lparr>status = c, data = Extracted [] 0\<rparr>)"

text \<open>A site that answers every request with one status and a body that is not text.\<close>

definition brokenBodyWorld :: "int \<Rightarrow> world" where
  "brokenBodyWorld c =
     sampleWorld (\<lambda>h u. Responded \<lparr>status = c, data = ExtractionError ''not a string''\<rparr>)"

text \<open>A site that cannot be reached: every request fails in the transport.\<close>

definition unreachableWorld :: world where
  "unreachableWorld = sampleWorld (\<lambda>h u. NetworkError ''connect ECONNREFUSED'')"


text \<open>
  A small site: the home page links to \<open>/a\<close> and \<open>/b\<close>, \<open>/a\<close> links to \<open>/c\<close>, and no other
  page has links. Its robots.txt disallows \<open>/a\<close>.
\<close>

definition treeNet :: "event list \<Rightarrow> string \<Rightarrow> outcome" where
  "treeNet h u =
     (if u = ''http://h/'' then
        Responded \<lparr>status = 200, data = Extracted [''http://h/a'', ''http://h/b''] 30\<rparr>
      else if u = ''http://h/a'' then
        Responded \<lparr>status = 200, data = Extracted [''http://h/c''] 10\<rparr>
      else Responded \<lparr>status = 200, data = Extracted [] 20\<rparr>)"

definition treeWorld :: world where
  "treeWorld = (sampleWorld treeNet)\<lparr>robotsParser := (\<lambda>r. Some (\<lambda>u. u \<noteq> ''http://h/a''))\<rparr>"

text \<open>
  A site entered as \<open>http://h\<close>, the way it is typed. The URL class writes that address as
  \<open>http://h/\<close>, and every page of the site links to the home page by that name.
\<close>

definition homeWorld :: world where
  "homeWorld =
     (sampleWorld (\<lambda>h u. Responded \<lparr>status = 200, data = Extracted [''http://h/''] 5\<rparr>))
       \<lparr>normalized := (\<lambda>u. if u = ''http://h'' then Some ''http://h/'' else Some u)\<rparr>"

text \<open>
  The reason the specification quotes for status 403. It is written there with an en dash
  (U+2013, in UTF-8 the bytes E2 80 93) where the source has a hyphen-minus.
\<close>

definition specReason403 :: string where
  "specReason403 = ''Forbidden '' @ [CHR 0xE2, CHR 0x80, CHR 0x93] @ '' Access denied''"

section \<open>Invariant proofs\<close>

lemma handleCrawlError_cases:
  "handleCrawlError opts err u p s = (b, s2) \<Longrightarrow>
   (b \<and> (\<exists>r sc. s2 = pushSkipped s u r p sc)) \<or> (\<not> b \<and> s2 = s)"
  by (auto simp add: handleCrawlError_def Let_def split: if_splits)

lemma seen_queue_update: "seen (s\<lparr>queue := q\<rparr>) = seen s"
  by (simp add: seen_def)

lemma addLinksToQueue_seen: "seen (addLinksToQueue ls d p s) = seen s"
  by (simp add: seen_def addLinksToQueue_fields)

lemma addLinksToQueue_queue_inv:
  "distinct (map url (queue s)) \<Longrightarrow> set (map url (queue s)) \<inter> seen s = {} \<Longrightarrow>
   distinct (map url (queue (addLinksToQueue ls d p s))) \<and>
   set (map url (queue (addLinksToQueue ls d p s))) \<inter> seen s = {}"
proof (induction ls arbitrary: s)
  case Nil
  then show ?case by simp
next
  case (Cons l ls)
  show ?case
  proof (cases "l \<notin> visited s \<and> \<not> isInQueue s l \<and> \<not> isSkipped s l")
    case True
    let ?s = "s\<lparr>queue := queue s @ [\<lparr>url = l, depth = d, parent = Some p\<rparr>]\<rparr>"
    have d: "distinct (map url (queue ?s))"
      using Cons.prems(1) True by (simp add: isInQueue_def)
    have e: "set (map url (queue ?s)) \<inter> seen ?s = {}"
      using Cons.prems(2) True by (auto simp add: seen_def isSkipped_def)
    show ?thesis using Cons.IH [OF d e] True by (simp add: seen_queue_update)
  next
    case False
    then show ?thesis using Cons.IH [OF Cons.prems] by auto
  qed
qed

lemma session_inv_page:
  assumes "session_inv s" "u \<notin> seen s" "u \<notin> set (map url (queue s))" "page_url pg = u"
  shows "session_inv (addLinksToQueue ls d p
           (s\<lparr>visited := insert u (visited s), history := h, results := results s @ [pg]\<rparr>))"
proof -
  let ?s1 = "s\<lparr>visited := insert u (visited s), history := h, results := results s @ [pg]\<rparr>"
  have sn: "seen ?s1 = insert u (seen s)" by (simp add: seen_def)
  have q: "distinct (map url (queue ?s1))" "set (map url (queue ?s1)) \<inter> seen ?s1 = {}"
    using assms by (auto simp add: session_inv_def sn)
  have r: "distinct (recordUrls ?s1)" "set (recordUrls ?s1) \<subseteq> seen ?s1"
    using assms by (auto simp add: session_inv_def sn recordUrls_def)
  have r': "recordUrls (addLinksToQueue ls d p ?s1) = recordUrls ?s1"
    by (simp add: recordUrls_def addLinksToQueue_fields)
  show ?thesis
    using addLinksToQueue_queue_inv [OF q, of ls d p] r
    unfolding session_inv_def r' addLinksToQueue_seen by simp
qed

lemma session_inv_failed:
  assumes "session_inv s" "u \<notin> seen s" "u \<notin> set (map url (queue s))"
  shows "session_inv (s\<lparr>visited := insert u (visited s), history := h,
            failedUrls := failedUrls s @ [\<lparr>fail_url = u, error = m, fail_parent = p\<rparr>]\<rparr>)"
  using assms by (auto simp add: session_inv_def seen_def recordUrls_def)

lemma session_inv_skipped:
  assumes "session_inv s" "u \<notin> seen s" "u \<notin> set (map url (queue s))"
  shows "session_inv (pushSkipped (s\<lparr>visited := insert u (visited s), history := h\<rparr>) u r p sc)"
  using assms by (auto simp add: session_inv_def seen_def recordUrls_def pushSkipped_def)

lemma session_inv_robots:
  assumes "session_inv s" "u \<notin> seen s" "u \<notin> set (map url (queue s))"
  shows "session_inv (pushSkipped s u r p sc)"
  using assms by (auto simp add: session_inv_def seen_def recordUrls_def pushSkipped_def)

lemma session_inv_sleepDelay: "session_inv (sleepDelay opts s) = session_inv s"
  by (simp add: session_inv_def seen_def recordUrls_def sleepDelay_def)

lemma crawlPage_state:
  "crawlPage opts w u d p s = (r, s1) \<Longrightarrow>
   s1 = s\<lparr>visited := insert u (visited s), history := snd (makeRequest opts w u 0 (history s))\<rparr>"
  by (auto simp add: crawlPage_def Let_def split: prod.splits sum.splits extraction.splits)

lemma session_inv_crawlItem:
  assumes "session_inv s" "u \<notin> seen s" "u \<notin> set (map url (queue s))"
  shows "session_inv (crawlItem opts w u d p s)"
proof (cases "crawlPage opts w u d p s")
  case (Pair r s1)
  note s1 = crawlPage_state [OF Pair]
  show ?thesis
  proof (cases r)
    case (Inr pg)
    have "page_url pg = u" using crawlPage_Inr Pair Inr by blast
    then show ?thesis
      using Pair Inr session_inv_page [OF assms, of pg] by (simp add: crawlItem_Inr s1)
  next
    case (Inl err)
    show ?thesis
    proof (cases "ignoreRestrictions opts")
      case True
      then show ?thesis
        using Pair Inl session_inv_failed [OF assms] by (simp add: crawlItem_Inl_ignore s1)
    next
      case False
      obtain b s2 where h: "handleCrawlError opts err u p s1 = (b, s2)"
        by (cases "handleCrawlError opts err u p s1")
      show ?thesis
      proof (cases b)
        case True
        then obtain r' sc where "s2 = pushSkipped s1 u r' p sc"
          using handleCrawlError_cases [OF h] by auto
        then show ?thesis
          using Pair Inl False h True session_inv_skipped [OF assms]
          by (simp add: crawlItem_Inl_skip s1)
      next
        case b: False
        then have "s2 = s1" using handleCrawlError_cases [OF h] by auto
        then show ?thesis
          using Pair Inl False h b session_inv_failed [OF assms]
          by (simp add: crawlItem_Inl_fail s1)
      qed
    qed
  qed
qed

lemma session_inv_processItem:
  assumes "session_inv s"
  shows "session_inv (processItem opts w s)"
proof (cases "queue s")
  case Nil
  then show ?thesis using assms by (simp add: processItem_def)
next
  case (Cons it rest)
  let ?s0 = "s\<lparr>queue := rest\<rparr>"
  have i0: "session_inv ?s0"
    using assms Cons by (auto simp add: session_inv_def seen_def recordUrls_def)
  have u1: "url it \<notin> seen ?s0" "url it \<notin> set (map url (queue ?s0))"
    using assms Cons by (auto simp add: session_inv_def seen_def)
  show ?thesis
    using Cons i0 session_inv_robots [OF i0 u1] session_inv_crawlItem [OF i0 u1]
    by (simp add: processItem_def Let_def session_inv_sleepDelay)
qed

lemma session_inv_start: "session_inv (startSession opts w startUrl)"
  by (auto simp add: session_inv_def startSession_def loadRobotsTxt_def newCrawler_def seen_def
        recordUrls_def Let_def split: outcome.splits option.splits)

lemma reachable_inv: "reachable opts w startUrl s \<Longrightarrow> session_inv s"
  by (induction rule: reachable.induct) (simp_all add: session_inv_start session_inv_processItem)

lemma processQueue_reachable:
  "reachable opts w startUrl s \<Longrightarrow> reachable opts w startUrl (processQueue opts w s)"
proof (induction opts w s rule: processQueue.induct)
  case (1 opts w s)
  show ?case
  proof (cases "queue s \<noteq> [] \<and> int (length (results s)) < maxPages opts")
    case True
    then have "reachable opts w startUrl (processItem opts w s)"
      using "1.prems" by (simp add: reachable.step)
    then show ?thesis using "1.IH" True by (subst processQueue.simps) simp
  next
    case False
    then show ?thesis using "1.prems" by (subst processQueue.simps) auto
  qed
qed

lemma crawl_reachable: "reachable opts w startUrl (crawl opts w startUrl)"
  unfolding crawl_def by (rule processQueue_reachable) (rule reachable.start)

lemma processQueue_continue:
  "queue s \<noteq> [] \<Longrightarrow> int (length (results s)) < maxPages opts \<Longrightarrow>
   processQueue opts w s = processQueue opts w (processItem opts w s)"
  by (subst processQueue.simps) simp

lemma processQueue_stop:
  "queue s = [] \<or> \<not> int (length (results s)) < maxPages opts \<Longrightarrow> processQueue opts w s = s"
  by (subst processQueue.simps) auto

lemmas eval_simps = crawl_def startSession_def loadRobotsTxt_def sampleWorld_def newCrawler_def
  processQueue_continue processQueue_stop
  processItem_def crawlItem_def crawlPage_def makeRequest.simps axios_get_def validateStatus_def
  handleCrawlError_def pushSkipped_def sleepDelay_def robotsBlocked_def isInQueue_def isSkipped_def
  statusIn_def noRetryStatuses_def authRelatedCodes_def skipCodes_def authReasons_def skipReasons_def
  lookupReason_def toLowerCase_def lowerChar_def authKeywords_def Let_def


text \<open>The four ways \<open>makeRequest\<close> handles one attempt, and a request whose attempts all fail.\<close>

lemma makeRequest_resolved:
  "axios_get opts w h u = Inr r \<Longrightarrow> makeRequest opts w u rc h = (Inr r, h @ [Request u])"
  by (subst makeRequest.simps) simp

lemma makeRequest_noRetry:
  "axios_get opts w h u = Inl err \<Longrightarrow> \<not> retryable opts err \<Longrightarrow>
   makeRequest opts w u rc h = (Inl err, h @ [Request u])"
  by (subst makeRequest.simps) (simp add: retryable_def)

lemma makeRequest_last:
  "axios_get opts w h u = Inl err \<Longrightarrow> \<not> rc < retries opts \<Longrightarrow>
   makeRequest opts w u rc h = (Inl err, h @ [Request u])"
  by (subst makeRequest.simps) simp

lemma makeRequest_retry:
  "axios_get opts w h u = Inl err \<Longrightarrow> retryable opts err \<Longrightarrow> rc < retries opts \<Longrightarrow>
   makeRequest opts w u rc h =
     makeRequest opts w u (rc + 1) (h @ [Request u, Sleep (1000 * (rc + 1))])"
  by (subst makeRequest.simps) (auto simp add: retryable_def)

lemma backoff_empty: "j < i \<Longrightarrow> backoff u i j = []"
  by (simp add: backoff_def)

lemma backoff_step: "i \<le> j \<Longrightarrow> backoff u i j = Request u # Sleep (1000 * i) # backoff u (i + 1) j"
  by (simp add: backoff_def upto_rec1)

lemma makeRequest_exhausted:
  assumes "\<And>h'. \<exists>err. axios_get opts w h' u = Inl err \<and> retryable opts err \<and> P err"
  shows "\<exists>err. P err \<and>
           makeRequest opts w u rc h = (Inl err, h @ backoff u (rc + 1) (retries opts) @ [Request u])"
proof (induction "nat (retries opts - rc)" arbitrary: rc h)
  case 0
  obtain err where e: "axios_get opts w h u = Inl err" "P err" using assms by blast
  have "\<not> rc < retries opts" using 0 by simp
  then show ?case using e makeRequest_last [OF e(1)] by (auto simp add: backoff_empty)
next
  case (Suc n)
  obtain err where e: "axios_get opts w h u = Inl err" "retryable opts err" using assms by blast
  have lt: "rc < retries opts" using Suc(2) by simp
  have "n = nat (retries opts - (rc + 1))" using Suc(2) by simp
  from Suc(1) [OF this, of "h @ [Request u, Sleep (1000 * (rc + 1))]"]
  obtain err' where e': "P err'"
    "makeRequest opts w u (rc + 1) (h @ [Request u, Sleep (1000 * (rc + 1))]) =
       (Inl err', (h @ [Request u, Sleep (1000 * (rc + 1))]) @ backoff u (rc + 1 + 1) (retries opts) @ [Request u])"
    by blast
  have "backoff u (rc + 1) (retries opts) = Request u # Sleep (1000 * (rc + 1)) # backoff u (rc + 1 + 1) (retries opts)"
    using lt by (intro backoff_step) simp
  then show ?case using e' makeRequest_retry [OF e lt] by auto
qed

lemma validateStatus_2xx: "200 \<le> st \<Longrightarrow> st < 300 \<Longrightarrow> validateStatus opts st"
  by (simp add: validateStatus_def)

lemma crawlItem_resolved:
  assumes "net w (history s) u = Responded r" "validateStatus opts (status r)"
    "data r = Extracted ls n"
  shows "crawlItem opts w u d p s =
           addLinksToQueue ls (d + 1) u
             (s\<lparr>visited := insert u (visited s), history := history s @ [Request u],
                results := results s @
                  [\<lparr>page_url = u, page_depth = d, page_parent = p, links = ls,
                    wordCount = n\<rparr>]\<rparr>)"
proof -
  have "axios_get opts w (history s) u = Inr r" using assms by (simp add: axios_get_def)
  then have "makeRequest opts w u 0 (history s) = (Inr r, history s @ [Request u])"
    by (rule makeRequest_resolved)
  then show ?thesis using assms(3) by (simp add: crawlItem_def crawlPage_def)
qed

lemma crawlItem_unextracted:
  assumes "net w (history s) u = Responded r" "validateStatus opts (status r)"
    "data r = ExtractionError m"
    "ignoreRestrictions opts \<or> \<not> skipUnauthorized opts"
  shows "crawlItem opts w u d p s =
           s\<lparr>visited := insert u (visited s), history := history s @ [Request u],
             failedUrls := failedUrls s @ [\<lparr>fail_url = u, error = m, fail_parent = p\<rparr>]\<rparr>"
proof -
  have "axios_get opts w (history s) u = Inr r" using assms by (simp add: axios_get_def)
  then have "makeRequest opts w u 0 (history s) = (Inr r, history s @ [Request u])"
    by (rule makeRequest_resolved)
  then show ?thesis using assms(3,4)
    by (auto simp add: crawlItem_def crawlPage_def handleCrawlError_def)
qed

lemma crawlItem_thrown:
  assumes "makeRequest opts w u 0 (history s) = (Inl err, h)"
  shows "crawlItem opts w u d p s =
           (case (if ignoreRestrictions opts then (False, s\<lparr>visited := insert u (visited s), history := h\<rparr>)
                  else handleCrawlError opts err u p (s\<lparr>visited := insert u (visited s), history := h\<rparr>)) of
              (shouldSkip, s2) \<Rightarrow>
                if shouldSkip then s2
                else s2\<lparr>failedUrls := failedUrls s2 @
                          [\<lparr>fail_url = u, error = message err, fail_parent = p\<rparr>]\<rparr>)"
  using assms by (simp add: crawlItem_def crawlPage_def)

lemma robotsBlocked_queue [simp]: "robotsBlocked opts (s\<lparr>queue := q\<rparr>) u = robotsBlocked opts s u"
  by (simp add: robotsBlocked_def)

lemma processItem_crawls:
  assumes "queue s = it # rest" "url it \<notin> visited s" "depth it \<le> maxDepth opts"
    "\<not> robotsBlocked opts s (url it)"
  shows "processItem opts w s =
           sleepDelay opts (crawlItem opts w (url it) (depth it) (parent it) (s\<lparr>queue := rest\<rparr>))"
  using assms by (simp add: processItem_def Let_def)


lemma crawlItem_exhausted:
  assumes "\<And>h'. \<exists>err. axios_get opts w h' u = Inl err \<and> retryable opts err \<and> P err"
    and "\<And>err s'. P err \<Longrightarrow> ignoreRestrictions opts \<or> handleCrawlError opts err u p s' = (False, s')"
  shows "\<exists>err. P err \<and> crawlItem opts w u d p s =
           s\<lparr>visited := insert u (visited s),
             history := history s @ backoff u 1 (retries opts) @ [Request u],
             failedUrls := failedUrls s @ [\<lparr>fail_url = u, error = message err, fail_parent = p\<rparr>]\<rparr>"
proof -
  obtain err where e: "P err"
    "makeRequest opts w u 0 (history s) =
       (Inl err, history s @ backoff u (0 + 1) (retries opts) @ [Request u])"
    using makeRequest_exhausted [of opts w u P 0 "history s", OF assms(1)] by blast
  show ?thesis
  proof (cases "ignoreRestrictions opts")
    case True
    then show ?thesis using e crawlItem_thrown [OF e(2)] by auto
  next
    case False
    then show ?thesis using e crawlItem_thrown [OF e(2)] assms(2) [OF e(1)] by auto
  qed
qed

lemma backoff_1_3: "backoff u 1 3 = [Request u, Sleep 1000, Request u, Sleep 2000, Request u, Sleep 3000]"
  by (simp add: backoff_step backoff_empty)

text \<open>What one iteration does to the robots rules, the visited set and the skip list.\<close>

lemma processItem_robots: "robots (processItem opts w s) = robots s"
proof (cases "queue s")
  case Nil
  then show ?thesis by (simp add: processItem_def)
next
  case (Cons it rest)
  have "robots (crawlItem opts w u d p s') = robots s'" for u d p s'
  proof (cases "crawlPage opts w u d p s'")
    case (Pair r s1)
    have r1: "robots s1 = robots s'" using crawlPage_fields(5) [of opts w u d p s'] Pair by simp
    show ?thesis
    proof (cases r)
      case (Inr pg)
      then show ?thesis using Pair r1 by (simp add: crawlItem_Inr addLinksToQueue_fields)
    next
      case (Inl err)
      obtain b s2 where h: "handleCrawlError opts err u p s1 = (b, s2)"
        by (cases "handleCrawlError opts err u p s1")
      have "robots s2 = robots s1" using handleCrawlError_fields(4) [of opts err u p s1] h by simp
      then show ?thesis using Pair Inl r1 h by (cases b) (auto simp add: crawlItem_def)
    qed
  qed
  then show ?thesis using Cons
    by (simp add: processItem_def Let_def pushSkipped_def sleepDelay_fields)
qed

lemma crawlItem_visited: "visited (crawlItem opts w u d p s) = insert u (visited s)"
proof (cases "crawlPage opts w u d p s")
  case (Pair r s1)
  have r1: "visited s1 = insert u (visited s)"
    using crawlPage_fields(6) [of opts w u d p s] Pair by simp
  show ?thesis
  proof (cases r)
    case (Inr pg)
    then show ?thesis using Pair r1 by (simp add: crawlItem_Inr addLinksToQueue_fields)
  next
    case (Inl err)
    obtain b s2 where h: "handleCrawlError opts err u p s1 = (b, s2)"
      by (cases "handleCrawlError opts err u p s1")
    have "visited s2 = visited s1" using handleCrawlError_fields(5) [of opts err u p s1] h by simp
    then show ?thesis using Pair Inl r1 h by (cases b) (auto simp add: crawlItem_def)
  qed
qed

lemma crawlItem_unrestricted:
  assumes "ignoreRestrictions opts"
  shows "skippedUrls (crawlItem opts w u d p s) = skippedUrls s \<and>
         u \<in> set (map page_url (results (crawlItem opts w u d p s))) \<union>
             set (map fail_url (failedUrls (crawlItem opts w u d p s)))"
proof (cases "crawlPage opts w u d p s")
  case (Pair r s1)
  have r1: "skippedUrls s1 = skippedUrls s"
    using crawlPage_fields(4) [of opts w u d p s] Pair by simp
  show ?thesis
  proof (cases r)
    case (Inr pg)
    have "page_url pg = u" using crawlPage_Inr Pair Inr by blast
    then show ?thesis using Pair Inr r1 by (simp add: crawlItem_Inr addLinksToQueue_fields)
  next
    case (Inl err)
    then show ?thesis using Pair r1 assms by (simp add: crawlItem_Inl_ignore)
  qed
qed

lemma reachable_unrestricted:
  assumes "ignoreRestrictions opts" and "reachable opts w startUrl s"
  shows "skippedUrls s = [] \<and> robots s = None"
  using assms(2)
proof (induction rule: reachable.induct)
  case start
  then show ?case using assms(1) by (simp add: startSession_def newCrawler_def)
next
  case (step s)
  then obtain it rest where q: "queue s = it # rest" by (cases "queue s") auto
  have "skippedUrls (processItem opts w s) = []"
    using q step.IH assms(1) crawlItem_unrestricted [OF assms(1), of w "url it" "depth it" "parent it" "s\<lparr>queue := rest\<rparr>"]
    by (simp add: processItem_def Let_def robotsBlocked_def sleepDelay_fields)
  then show ?case using step.IH by (simp add: processItem_robots)
qed

text \<open>What \<open>addLinksToQueue\<close> appends goes behind the queue, at the depth and parent given.\<close>

lemma addLinksToQueue_appends:
  "\<exists>new. queue (addLinksToQueue ls d p s) = queue s @ new \<and>
         list_all (\<lambda>i. depth i = d \<and> parent i = Some p) new"
proof (induction ls arbitrary: s)
  case Nil
  then show ?case by simp
next
  case (Cons x ls)
  show ?case
  proof (cases "x \<notin> visited s \<and> \<not> isInQueue s x \<and> \<not> isSkipped s x")
    case True
    obtain new where
      "queue (addLinksToQueue ls d p (s\<lparr>queue := queue s @ [\<lparr>url = x, depth = d, parent = Some p\<rparr>]\<rparr>)) =
         queue (s\<lparr>queue := queue s @ [\<lparr>url = x, depth = d, parent = Some p\<rparr>]\<rparr>) @ new"
      "list_all (\<lambda>i. depth i = d \<and> parent i = Some p) new"
      using Cons.IH by blast
    then show ?thesis using True
      by (intro exI [of _ "\<lparr>url = x, depth = d, parent = Some p\<rparr> # new"]) simp
  next
    case False
    then show ?thesis using Cons.IH [of s] by auto
  qed
qed

text \<open>Every iteration takes the head of the queue and puts what it adds behind the rest.\<close>

lemma crawlItem_queue: "\<exists>new. queue (crawlItem opts w u d p s) = queue s @ new"
proof (cases "crawlPage opts w u d p s")
  case (Pair r s1)
  have r1: "queue s1 = queue s"
    using crawlPage_fields(1) [of opts w u d p s] Pair by simp
  show ?thesis
  proof (cases r)
    case (Inr pg)
    then show ?thesis
      using Pair r1 addLinksToQueue_appends [of "links pg" "d + 1" u "s1\<lparr>results := results s1 @ [pg]\<rparr>"]
      by (auto simp add: crawlItem_Inr)
  next
    case (Inl err)
    obtain b s2 where h: "handleCrawlError opts err u p s1 = (b, s2)"
      by (cases "handleCrawlError opts err u p s1")
    have "queue s2 = queue s1" using handleCrawlError_fields(1) [of opts err u p s1] h by simp
    then show ?thesis using Pair Inl r1 h by (cases b) (auto simp add: crawlItem_def)
  qed
qed

lemma processItem_fifo:
  assumes "queue s = it # rest"
  shows "\<exists>new. queue (processItem opts w s) = rest @ new"
  using assms crawlItem_queue [of opts w "url it" "depth it" "parent it" "s\<lparr>queue := rest\<rparr>"]
  by (auto simp add: processItem_def Let_def pushSkipped_def sleepDelay_fields)

text \<open>
  An accepted response outside the skipping mode: one request, then a page when the body
  is extracted and a failure record when the extraction throws.
\<close>

lemma processItem_accepted:
  assumes "queue s = it # rest" and "url it \<notin> visited s" and "depth it \<le> maxDepth opts"
    and "\<not> robotsBlocked opts s (url it)"
    and "net w (history s) (url it) = Responded r" and "validateStatus opts (status r)"
    and "ignoreRestrictions opts \<or> \<not> skipUnauthorized opts"
  shows "processItem opts w s =
           sleepDelay opts
             (case data r of
                Extracted ls n \<Rightarrow>
                  addLinksToQueue ls (depth it + 1) (url it)
                    (s\<lparr>queue := rest, visited := insert (url it) (visited s),
                       history := history s @ [Request (url it)],
                       results := results s @
                         [\<lparr>page_url = url it, page_depth = depth it, page_parent = parent it,
                           links = ls, wordCount = n\<rparr>]\<rparr>)
              | ExtractionError m \<Rightarrow>
                  s\<lparr>queue := rest, visited := insert (url it) (visited s),
                    history := history s @ [Request (url it)],
                    failedUrls := failedUrls s @
                      [\<lparr>fail_url = url it, error = m, fail_parent = parent it\<rparr>]\<rparr>)"
proof -
  have n: "net w (history (s\<lparr>queue := rest\<rparr>)) (url it) = Responded r" using assms(5) by simp
  note pc = processItem_crawls [OF assms(1-4), of w]
  show ?thesis
  proof (cases "data r")
    case (Extracted ls k)
    then show ?thesis
      using pc crawlItem_resolved [OF n assms(6) Extracted, of "depth it" "parent it"] by simp
  next
    case (ExtractionError m)
    then show ?thesis
      using pc crawlItem_unextracted [OF n assms(6) ExtractionError assms(7), of "depth it" "parent it"]
      by simp
  qed
qed

text \<open>The crawler when the loop starts: only the seed is queued, and nothing is recorded.\<close>

lemma loadRobotsTxt_fields:
  "visited (loadRobotsTxt w b s) = visited s"
  "queue (loadRobotsTxt w b s) = queue s"
  "results (loadRobotsTxt w b s) = results s"
  "failedUrls (loadRobotsTxt w b s) = failedUrls s"
  "skippedUrls (loadRobotsTxt w b s) = skippedUrls s"
  by (simp_all add: loadRobotsTxt_def Let_def split: outcome.splits option.splits)

lemma startSession_shape:
  "startSession opts w u =
     \<lparr>visited = {}, queue = [\<lparr>url = u, depth = 0, parent = None\<rparr>], results = [],
      failedUrls = [], skippedUrls = [], robots = robots (startSession opts w u),
      history = history (startSession opts w u)\<rparr>"
  by (rule crawler.equality)
    (simp_all add: startSession_def Let_def loadRobotsTxt_fields newCrawler_def)

text \<open>The queue that \<open>addLinksToQueue\<close> leaves, link by link.\<close>

lemma remdups_snoc: "remdups (ys @ [x]) = filter (\<lambda>l. l \<noteq> x) (remdups ys) @ [x]"
  by (induction ys) auto

lemma firstOccurrences_Cons:
  "firstOccurrences (x # ls) = x # filter (\<lambda>l. l \<noteq> x) (firstOccurrences ls)"
  by (simp add: firstOccurrences_def remdups_snoc rev_filter)

lemma addLinksToQueue_queue:
  "queue (addLinksToQueue ls d p s) =
     queue s @
     map (\<lambda>l. \<lparr>url = l, depth = d, parent = Some p\<rparr>)
       (filter (\<lambda>l. l \<notin> visited s \<and> \<not> isInQueue s l \<and> \<not> isSkipped s l) (firstOccurrences ls))"
proof (induction ls arbitrary: s)
  case Nil
  then show ?case by (simp add: firstOccurrences_def)
next
  case (Cons x ls)
  show ?case
  proof (cases "x \<notin> visited s \<and> \<not> isInQueue s x \<and> \<not> isSkipped s x")
    case True
    let ?s = "s\<lparr>queue := queue s @ [\<lparr>url = x, depth = d, parent = Some p\<rparr>]\<rparr>"
    have a: "addLinksToQueue (x # ls) d p s = addLinksToQueue ls d p ?s" using True by simp
    have b: "(l \<notin> visited ?s \<and> \<not> isInQueue ?s l \<and> \<not> isSkipped ?s l) =
             ((l \<notin> visited s \<and> \<not> isInQueue s l \<and> \<not> isSkipped s l) \<and> l \<noteq> x)" for l
      by (auto simp add: isInQueue_def isSkipped_def)
    show ?thesis
      unfolding a Cons.IH [of ?s] b firstOccurrences_Cons using True
      by (simp add: conj_commute)
  next
    case False
    have a: "addLinksToQueue (x # ls) d p s = addLinksToQueue ls d p s" using False by auto
    have b: "filter (\<lambda>l. l \<notin> visited s \<and> \<not> isInQueue s l \<and> \<not> isSkipped s l)
               (filter (\<lambda>l. l \<noteq> x) (firstOccurrences ls)) =
             filter (\<lambda>l. l \<notin> visited s \<and> \<not> isInQueue s l \<and> \<not> isSkipped s l) (firstOccurrences ls)"
      using False by (auto intro!: filter_cong)
    show ?thesis
      unfolding a Cons.IH [of s] firstOccurrences_Cons using False b by auto
  qed
qed



lemma tree_saved:
  "map page_url (results (crawl (modeOptions True False) treeWorld ''http://h/'')) =
     [''http://h/'', ''http://h/a'', ''http://h/b'', ''http://h/c''] \<and>
   map page_url (results (snd (crawlAndSave (modeOptions True False) treeWorld ''http://h/''))) =
     [''http://h/'', ''http://h/b'', ''http://h/c'', ''http://h/a''] \<and>
   averageLinksPerPage (out_statistics (buildCrawlData
      (crawl (modeOptions True False) treeWorld ''http://h/''))) = Finite 1"
  by (simp add: eval_simps modeOptions_def treeWorld_def treeNet_def crawlAndSave_def
        saveResults_def saveCrawlData_def buildCrawlData_def getDomain_def sortByWordCount_def sumLinks_def
        js_divide_def Math_round_def floor_eq_iff)

text \<open>
  As strings the recorded URLs are all different, and no queued URL has a record: the
  comparisons of the crawler are on strings.
\<close>

lemma recorded_strings_distinct:
  "reachable opts w startUrl s \<Longrightarrow>
   distinct (recordUrls s) \<and> set (map url (queue s)) \<inter> set (recordUrls s) = {}"
  using reachable_inv [of opts w startUrl s] by (auto simp add: session_inv_def)

section \<open>The claims\<close>

text \<open>
  C1. No URL identity should appear in more than one record of a session. The crawler
  compares URLs as strings: links are queued in normalised form, but the seed is queued as
  it was typed. A site entered as \<open>http://h\<close> whose pages link to the home page is
  therefore crawled twice, as \<open>http://h\<close> and as \<open>http://h/\<close>: two page records of one URL
  identity. Entered in its normalised form, the same site gets one record.
\<close>

theorem seed_recorded_twice:
  "map page_url (results (crawl (modeOptions True False) homeWorld ''http://h'')) =
     [''http://h'', ''http://h/''] \<and>
   map (normalizeUrl homeWorld)
     (recordUrls (crawl (modeOptions True False) homeWorld ''http://h'')) =
     [''http://h/'', ''http://h/''] \<and>
   \<not> distinct (map (normalizeUrl homeWorld)
     (recordUrls (crawl (modeOptions True False) homeWorld ''http://h''))) \<and>
   recordUrls (crawl (modeOptions True False) homeWorld ''http://h/'') = [''http://h/'']"
  by (simp add: eval_simps modeOptions_def homeWorld_def recordUrls_def normalizeUrl_def)

text \<open>
  C2 (amended). With \<open>ignoreRestrictions\<close> and \<open>skipUnauthorized\<close> both false, a URL whose
  every attempt is answered with a status in {500, 502, 503, 504} is retried until the
  budget is used up (the n-th retry after a sleep of 1000 * n ms) and is then recorded in
  \<open>failedUrls\<close>, not as a page and not as skipped. A response with a status in
  {401, 403, 407, 429, 451, 404, 410} passes \<open>validateStatus\<close>: it is requested once and not
  retried, and the URL is recorded as a page, with its links queued, when the body can be
  extracted, and in \<open>failedUrls\<close> when the extraction throws.
\<close>

theorem unskipped_statuses:
  assumes "\<not> ignoreRestrictions opts" and "\<not> skipUnauthorized opts"
    and "queue s = it # rest" and "url it \<notin> visited s" and "depth it \<le> maxDepth opts"
    and "\<not> robotsBlocked opts s (url it)"
  shows "((\<forall>h. \<exists>r. net w h (url it) = Responded r \<and> status r \<in> {500, 502, 503, 504}) \<longrightarrow>
          (\<exists>m. processItem opts w s =
             sleepDelay opts
               (s\<lparr>queue := rest, visited := insert (url it) (visited s),
                  history := history s @ backoff (url it) 1 (retries opts) @ [Request (url it)],
                  failedUrls := failedUrls s @
                    [\<lparr>fail_url = url it, error = m, fail_parent = parent it\<rparr>]\<rparr>))) \<and>
         (\<forall>r. net w (history s) (url it) = Responded r \<and>
               status r \<in> {401, 403, 407, 429, 451, 404, 410} \<longrightarrow>
            processItem opts w s =
              sleepDelay opts
                (case data r of
                   Extracted ls n \<Rightarrow>
                     addLinksToQueue ls (depth it + 1) (url it)
                       (s\<lparr>queue := rest, visited := insert (url it) (visited s),
                          history := history s @ [Request (url it)],
                          results := results s @
                            [\<lparr>page_url = url it, page_depth = depth it, page_parent = parent it,
                              links = ls, wordCount = n\<rparr>]\<rparr>)
                 | ExtractionError m \<Rightarrow>
                     s\<lparr>queue := rest, visited := insert (url it) (visited s),
                       history := history s @ [Request (url it)],
                       failedUrls := failedUrls s @
                         [\<lparr>fail_url = url it, error = m, fail_parent = parent it\<rparr>]\<rparr>))"
proof (intro conjI impI allI)
  assume all: "\<forall>h. \<exists>r. net w h (url it) = Responded r \<and> status r \<in> {500, 502, 503, 504}"
  have a: "\<exists>err. axios_get opts w h' (url it) = Inl err \<and> retryable opts err \<and> True" for h'
  proof -
    obtain r where "net w h' (url it) = Responded r" "status r \<in> {500, 502, 503, 504}"
      using all by blast
    then show ?thesis using assms(1,2)
      by (auto simp add: axios_get_def validateStatus_def retryable_def statusIn_def
            noRetryStatuses_def)
  qed
  have b: "True \<Longrightarrow> ignoreRestrictions opts \<or>
             handleCrawlError opts err (url it) (parent it) s' = (False, s')"
    for err :: axios_error and s'
    using assms(2) by (simp add: handleCrawlError_def)
  from crawlItem_exhausted
         [of opts w "url it" "\<lambda>_. True" "parent it" "depth it" "s\<lparr>queue := rest\<rparr>", OF a b]
  obtain err :: axios_error where
    "crawlItem opts w (url it) (depth it) (parent it) (s\<lparr>queue := rest\<rparr>) =
       s\<lparr>queue := rest, visited := insert (url it) (visited s),
         history := history s @ backoff (url it) 1 (retries opts) @ [Request (url it)],
         failedUrls := failedUrls s @
           [\<lparr>fail_url = url it, error = message err, fail_parent = parent it\<rparr>]\<rparr>"
    by auto
  then show "\<exists>m. processItem opts w s =
             sleepDelay opts
               (s\<lparr>queue := rest, visited := insert (url it) (visited s),
                  history := history s @ backoff (url it) 1 (retries opts) @ [Request (url it)],
                  failedUrls := failedUrls s @
                    [\<lparr>fail_url = url it, error = m, fail_parent = parent it\<rparr>]\<rparr>)"
    using processItem_crawls [OF assms(3-6), of w] by auto
next
  fix r
  assume r: "net w (history s) (url it) = Responded r \<and>
             status r \<in> {401, 403, 407, 429, 451, 404, 410}"
  then have v: "validateStatus opts (status r)"
    using assms(1,2) by (auto simp add: validateStatus_def)
  have n: "net w (history s) (url it) = Responded r" using r by simp
  show "processItem opts w s =
          sleepDelay opts
            (case data r of
               Extracted ls n \<Rightarrow>
                 addLinksToQueue ls (depth it + 1) (url it)
                   (s\<lparr>queue := rest, visited := insert (url it) (visited s),
                      history := history s @ [Request (url it)],
                      results := results s @
                        [\<lparr>page_url = url it, page_depth = depth it, page_parent = parent it,
                          links = ls, wordCount = n\<rparr>]\<rparr>)
             | ExtractionError m \<Rightarrow>
                 s\<lparr>queue := rest, visited := insert (url it) (visited s),
                   history := history s @ [Request (url it)],
                   failedUrls := failedUrls s @
                     [\<lparr>fail_url = url it, error = m, fail_parent = parent it\<rparr>]\<rparr>)"
    using assms(2) by (intro processItem_accepted [OF assms(3-6) n v]) simp
qed

theorem unskipped_statuses_witness:
  "(\<exists>m. processItem (modeOptions False False) (statusWorld 503)
          (startSession (modeOptions False False) (statusWorld 503) ''http://h/'') =
        \<lparr>visited = {''http://h/''}, queue = [], results = [],
         failedUrls = [\<lparr>fail_url = ''http://h/'', error = m, fail_parent = None\<rparr>],
         skippedUrls = [], robots = None,
         history = [Request ''http://h/'', Sleep 1000, Request ''http://h/'', Sleep 2000,
                    Request ''http://h/'', Sleep 3000, Request ''http://h/'']\<rparr>) \<and>
   processItem (modeOptions False False) (statusWorld 404)
     (startSession (modeOptions False False) (statusWorld 404) ''http://h/'') =
   \<lparr>visited = {''http://h/''}, queue = [],
    results = [\<lparr>page_url = ''http://h/'', page_depth = 0, page_parent = None, links = [],
                wordCount = 0\<rparr>],
    failedUrls = [], skippedUrls = [], robots = None, history = [Request ''http://h/'']\<rparr> \<and>
   processItem (modeOptions False False) (brokenBodyWorld 404)
     (startSession (modeOptions False False) (brokenBodyWorld 404) ''http://h/'') =
   \<lparr>visited = {''http://h/''}, queue = [], results = [],
    failedUrls = [\<lparr>fail_url = ''http://h/'', error = ''not a string'', fail_parent = None\<rparr>],
    skippedUrls = [], robots = None, history = [Request ''http://h/'']\<rparr>"
proof -
  have a: "\<exists>m. processItem (modeOptions False False) (statusWorld 503)
          (startSession (modeOptions False False) (statusWorld 503) ''http://h/'') =
        \<lparr>visited = {''http://h/''}, queue = [], results = [],
         failedUrls = [\<lparr>fail_url = ''http://h/'', error = m, fail_parent = None\<rparr>],
         skippedUrls = [], robots = None,
         history = [Request ''http://h/'', Sleep 1000, Request ''http://h/'', Sleep 2000,
                    Request ''http://h/'', Sleep 3000, Request ''http://h/'']\<rparr>"
    using unskipped_statuses
      [of "modeOptions False False"
          "startSession (modeOptions False False) (statusWorld 503) ''http://h/''"
          "\<lparr>url = ''http://h/'', depth = 0, parent = None\<rparr>" "[]" "statusWorld 503"]
    by (simp add: modeOptions_def statusWorld_def sampleWorld_def startSession_def Let_def
          newCrawler_def robotsBlocked_def sleepDelay_def backoff_1_3)
  have b: "processItem (modeOptions False False) (statusWorld 404)
     (startSession (modeOptions False False) (statusWorld 404) ''http://h/'') =
   \<lparr>visited = {''http://h/''}, queue = [],
    results = [\<lparr>page_url = ''http://h/'', page_depth = 0, page_parent = None, links = [],
                wordCount = 0\<rparr>],
    failedUrls = [], skippedUrls = [], robots = None, history = [Request ''http://h/'']\<rparr>"
    using unskipped_statuses
      [of "modeOptions False False"
          "startSession (modeOptions False False) (statusWorld 404) ''http://h/''"
          "\<lparr>url = ''http://h/'', depth = 0, parent = None\<rparr>" "[]" "statusWorld 404"]
    by (simp add: modeOptions_def statusWorld_def sampleWorld_def startSession_def Let_def
          newCrawler_def robotsBlocked_def sleepDelay_def)
  have c: "processItem (modeOptions False False) (brokenBodyWorld 404)
     (startSession (modeOptions False False) (brokenBodyWorld 404) ''http://h/'') =
   \<lparr>visited = {''http://h/''}, queue = [], results = [],
    failedUrls = [\<lparr>fail_url = ''http://h/'', error = ''not a string'', fail_parent = None\<rparr>],
    skippedUrls = [], robots = None, history = [Request ''http://h/'']\<rparr>"
    using unskipped_statuses
      [of "modeOptions False False"
          "startSession (modeOptions False False) (brokenBodyWorld 404) ''http://h/''"
          "\<lparr>url = ''http://h/'', depth = 0, parent = None\<rparr>" "[]" "brokenBodyWorld 404"]
    by (simp add: modeOptions_def brokenBodyWorld_def sampleWorld_def startSession_def Let_def
          newCrawler_def robotsBlocked_def sleepDelay_def)
  show ?thesis using a b c by blast
qed

text \<open>
  With both flags false a 404 response gives a page record after a single request, and no
  failure record.
\<close>

theorem not_found_is_a_page_counterexample:
  "map page_url (results (crawl (modeOptions False False) (statusWorld 404) ''http://h/'')) =
     [''http://h/''] \<and>
   failedUrls (crawl (modeOptions False False) (statusWorld 404) ''http://h/'') = [] \<and>
   history (crawl (modeOptions False False) (statusWorld 404) ''http://h/'') =
     [Request ''http://h/'']"
  by (simp add: eval_simps modeOptions_def statusWorld_def)

text \<open>
  C3 (amended). With \<open>ignoreRestrictions\<close> true, in every state of a session the skip list
  is empty, no robots rules are loaded and none are consulted, and every dequeued URL whose
  depth is at most \<open>maxDepth\<close> ends the iteration with a page record or a failure record.
\<close>

theorem unrestricted_mode_never_skips:
  assumes "ignoreRestrictions opts" and "reachable opts w startUrl s"
  shows "skippedUrls s = [] \<and> robots s = None \<and> (\<forall>u. \<not> robotsBlocked opts s u) \<and>
         (\<forall>it rest. queue s = it # rest \<and> depth it \<le> maxDepth opts \<longrightarrow>
            url it \<in> set (map page_url (results (processItem opts w s))) \<union>
                     set (map fail_url (failedUrls (processItem opts w s))))"
proof (intro conjI allI impI)
  show "skippedUrls s = []" "robots s = None"
    using reachable_unrestricted [OF assms] by simp_all
  show "\<not> robotsBlocked opts s u" for u using assms(1) by (simp add: robotsBlocked_def)
  fix it rest
  assume q: "queue s = it # rest \<and> depth it \<le> maxDepth opts"
  have nv: "url it \<notin> visited s"
    using reachable_inv [OF assms(2)] q by (auto simp add: session_inv_def seen_def)
  have nb: "\<not> robotsBlocked opts s (url it)" using assms(1) by (simp add: robotsBlocked_def)
  have "processItem opts w s =
          sleepDelay opts (crawlItem opts w (url it) (depth it) (parent it) (s\<lparr>queue := rest\<rparr>))"
    using processItem_crawls [of s it rest opts w] q nv nb by simp
  then show "url it \<in> set (map page_url (results (processItem opts w s))) \<union>
                     set (map fail_url (failedUrls (processItem opts w s)))"
    using crawlItem_unrestricted [OF assms(1), of w "url it" "depth it" "parent it" "s\<lparr>queue := rest\<rparr>"]
    by (simp add: sleepDelay_fields)
qed

theorem unrestricted_mode_never_skips_witness:
  "skippedUrls (startSession ((modeOptions True False)\<lparr>respectRobots := True\<rparr>) treeWorld ''http://h/'') = [] \<and>
   robots (startSession ((modeOptions True False)\<lparr>respectRobots := True\<rparr>) treeWorld ''http://h/'') = None \<and>
   ''http://h/'' \<in>
     set (map page_url (results (processItem ((modeOptions True False)\<lparr>respectRobots := True\<rparr>) treeWorld
           (startSession ((modeOptions True False)\<lparr>respectRobots := True\<rparr>) treeWorld ''http://h/'')))) \<union>
     set (map fail_url (failedUrls (processItem ((modeOptions True False)\<lparr>respectRobots := True\<rparr>) treeWorld
           (startSession ((modeOptions True False)\<lparr>respectRobots := True\<rparr>) treeWorld ''http://h/'')))) \<and>
   skippedUrls (crawl ((modeOptions True False)\<lparr>respectRobots := True\<rparr>) treeWorld ''http://h/'') = []"
  using
    unrestricted_mode_never_skips
      [OF _ reachable.start, of "(modeOptions True False)\<lparr>respectRobots := True\<rparr>" treeWorld
         "''http://h/''"]
    unrestricted_mode_never_skips
      [OF _ crawl_reachable, of "(modeOptions True False)\<lparr>respectRobots := True\<rparr>" treeWorld
         "''http://h/''"]
  by (simp add: modeOptions_def startSession_def loadRobotsTxt_def Let_def newCrawler_def)

text \<open>
  With \<open>maxDepth = 0\<close> the two links of the home page are queued at depth 1, dequeued, and
  dropped by the depth guard: the queue ends empty and neither URL has a record.
\<close>

theorem depth_drop_counterexample:
  "map url (queue (processItem ((modeOptions True False)\<lparr>maxDepth := 0\<rparr>) treeWorld
      (startSession ((modeOptions True False)\<lparr>maxDepth := 0\<rparr>) treeWorld ''http://h/''))) =
     [''http://h/a'', ''http://h/b''] \<and>
   queue (crawl ((modeOptions True False)\<lparr>maxDepth := 0\<rparr>) treeWorld ''http://h/'') = [] \<and>
   recordUrls (crawl ((modeOptions True False)\<lparr>maxDepth := 0\<rparr>) treeWorld ''http://h/'') =
     [''http://h/'']"
  by (simp add: eval_simps modeOptions_def treeWorld_def sampleWorld_def treeNet_def recordUrls_def)

text \<open>
  C4 (amended). With \<open>ignoreRestrictions\<close> true, a response with a status in [200,600) is
  accepted at once: it is requested once and not retried, and the URL is recorded as a
  page when the body can be extracted, and in \<open>failedUrls\<close> when the extraction throws. A
  URL whose every attempt raises a transport exception (or is answered with a status
  outside [200,600)) is retried until the budget is used up, the n-th retry after a sleep
  of 1000 * n ms, and is then recorded in \<open>failedUrls\<close>. In each case the skip list is left
  as it was.
\<close>

theorem unrestricted_mode_outcomes:
  assumes "ignoreRestrictions opts"
    and "queue s = it # rest" and "url it \<notin> visited s" and "depth it \<le> maxDepth opts"
  shows "(\<forall>r. net w (history s) (url it) = Responded r \<and> 200 \<le> status r \<and> status r < 600 \<longrightarrow>
            processItem opts w s =
              sleepDelay opts
                (case data r of
                   Extracted ls n \<Rightarrow>
                     addLinksToQueue ls (depth it + 1) (url it)
                       (s\<lparr>queue := rest, visited := insert (url it) (visited s),
                          history := history s @ [Request (url it)],
                          results := results s @
                            [\<lparr>page_url = url it, page_depth = depth it, page_parent = parent it,
                              links = ls, wordCount = n\<rparr>]\<rparr>)
                 | ExtractionError m \<Rightarrow>
                     s\<lparr>queue := rest, visited := insert (url it) (visited s),
                       history := history s @ [Request (url it)],
                       failedUrls := failedUrls s @
                         [\<lparr>fail_url = url it, error = m, fail_parent = parent it\<rparr>]\<rparr>)) \<and>
         ((\<forall>h. case net w h (url it) of
                  NetworkError m \<Rightarrow> True
                | Responded r \<Rightarrow> status r < 200 \<or> 600 \<le> status r) \<longrightarrow>
          (\<exists>m. processItem opts w s =
             sleepDelay opts
               (s\<lparr>queue := rest, visited := insert (url it) (visited s),
                  history := history s @ backoff (url it) 1 (retries opts) @ [Request (url it)],
                  failedUrls := failedUrls s @
                    [\<lparr>fail_url = url it, error = m, fail_parent = parent it\<rparr>]\<rparr>)))"
proof (intro conjI impI allI)
  have nb: "\<not> robotsBlocked opts s (url it)" using assms(1) by (simp add: robotsBlocked_def)
  note pc = processItem_crawls [OF assms(2-4) nb, of w]
  {
    fix r
    assume r: "net w (history s) (url it) = Responded r \<and> 200 \<le> status r \<and> status r < 600"
    then have v: "validateStatus opts (status r)"
      using assms(1) by (simp add: validateStatus_def)
    have n: "net w (history s) (url it) = Responded r" using r by simp
    show "processItem opts w s =
            sleepDelay opts
              (case data r of
                 Extracted ls n \<Rightarrow>
                   addLinksToQueue ls (depth it + 1) (url it)
                     (s\<lparr>queue := rest, visited := insert (url it) (visited s),
                        history := history s @ [Request (url it)],
                        results := results s @
                          [\<lparr>page_url = url it, page_depth = depth it, page_parent = parent it,
                            links = ls, wordCount = n\<rparr>]\<rparr>)
               | ExtractionError m \<Rightarrow>
                   s\<lparr>queue := rest, visited := insert (url it) (visited s),
                     history := history s @ [Request (url it)],
                     failedUrls := failedUrls s @
                       [\<lparr>fail_url = url it, error = m, fail_parent = parent it\<rparr>]\<rparr>)"
      using assms(1) by (intro processItem_accepted [OF assms(2-4) nb n v]) simp
  }
  {
    assume all: "\<forall>h. case net w h (url it) of
                  NetworkError m \<Rightarrow> True
                | Responded r \<Rightarrow> status r < 200 \<or> 600 \<le> status r"
    have a: "\<exists>err. axios_get opts w h' (url it) = Inl err \<and> retryable opts err \<and> True" for h'
      using all [rule_format, of h'] assms(1)
      by (auto simp add: axios_get_def validateStatus_def retryable_def split: outcome.splits)
    have b: "True \<Longrightarrow> ignoreRestrictions opts \<or>
               handleCrawlError opts err (url it) (parent it) s' = (False, s')"
      for err :: axios_error and s'
      using assms(1) by simp
    from crawlItem_exhausted
           [of opts w "url it" "\<lambda>_. True" "parent it" "depth it" "s\<lparr>queue := rest\<rparr>", OF a b]
    obtain err :: axios_error where
      "crawlItem opts w (url it) (depth it) (parent it) (s\<lparr>queue := rest\<rparr>) =
         s\<lparr>queue := rest, visited := insert (url it) (visited s),
           history := history s @ backoff (url it) 1 (retries opts) @ [Request (url it)],
           failedUrls := failedUrls s @
             [\<lparr>fail_url = url it, error = message err, fail_parent = parent it\<rparr>]\<rparr>"
      by auto
    then show "\<exists>m. processItem opts w s =
               sleepDelay opts
                 (s\<lparr>queue := rest, visited := insert (url it) (visited s),
                    history := history s @ backoff (url it) 1 (retries opts) @ [Request (url it)],
                    failedUrls := failedUrls s @
                      [\<lparr>fail_url = url it, error = m, fail_parent = parent it\<rparr>]\<rparr>)"
      using pc by auto
  }
qed

theorem unrestricted_mode_outcomes_witness:
  "processItem (modeOptions True False) (statusWorld 500)
     (startSession (modeOptions True False) (statusWorld 500) ''http://h/'') =
   \<lparr>visited = {''http://h/''}, queue = [],
    results = [\<lparr>page_url = ''http://h/'', page_depth = 0, page_parent = None, links = [],
                wordCount = 0\<rparr>],
    failedUrls = [], skippedUrls = [], robots = None, history = [Request ''http://h/'']\<rparr> \<and>
   processItem (modeOptions True False) (brokenBodyWorld 200)
     (startSession (modeOptions True False) (brokenBodyWorld 200) ''http://h/'') =
   \<lparr>visited = {''http://h/''}, queue = [], results = [],
    failedUrls = [\<lparr>fail_url = ''http://h/'', error = ''not a string'', fail_parent = None\<rparr>],
    skippedUrls = [], robots = None, history = [Request ''http://h/'']\<rparr> \<and>
   (\<exists>m. processItem (modeOptions True False) unreachableWorld
          (startSession (modeOptions True False) unreachableWorld ''http://h/'') =
        \<lparr>visited = {''http://h/''}, queue = [], results = [],
         failedUrls = [\<lparr>fail_url = ''http://h/'', error = m, fail_parent = None\<rparr>],
         skippedUrls = [], robots = None,
         history = [Request ''http://h/'', Sleep 1000, Request ''http://h/'', Sleep 2000,
                    Request ''http://h/'', Sleep 3000, Request ''http://h/'']\<rparr>)"
proof -
  have a: "processItem (modeOptions True False) (statusWorld 500)
     (startSession (modeOptions True False) (statusWorld 500) ''http://h/'') =
   \<lparr>visited = {''http://h/''}, queue = [],
    results = [\<lparr>page_url = ''http://h/'', page_depth = 0, page_parent = None, links = [],
                wordCount = 0\<rparr>],
    failedUrls = [], skippedUrls = [], robots = None, history = [Request ''http://h/'']\<rparr>"
    using unrestricted_mode_outcomes
      [of "modeOptions True False"
          "startSession (modeOptions True False) (statusWorld 500) ''http://h/''"
          "\<lparr>url = ''http://h/'', depth = 0, parent = None\<rparr>" "[]" "statusWorld 500"]
    by (simp add: modeOptions_def statusWorld_def sampleWorld_def startSession_def Let_def
          newCrawler_def sleepDelay_def)
  have b: "processItem (modeOptions True False) (brokenBodyWorld 200)
     (startSession (modeOptions True False) (brokenBodyWorld 200) ''http://h/'') =
   \<lparr>visited = {''http://h/''}, queue = [], results = [],
    failedUrls = [\<lparr>fail_url = ''http://h/'', error = ''not a string'', fail_parent = None\<rparr>],
    skippedUrls = [], robots = None, history = [Request ''http://h/'']\<rparr>"
    using unrestricted_mode_outcomes
      [of "modeOptions True False"
          "startSession (modeOptions True False) (brokenBodyWorld 200) ''http://h/''"
          "\<lparr>url = ''http://h/'', depth = 0, parent = None\<rparr>" "[]" "brokenBodyWorld 200"]
    by (simp add: modeOptions_def brokenBodyWorld_def sampleWorld_def startSession_def Let_def
          newCrawler_def sleepDelay_def)
  have c: "\<exists>m. processItem (modeOptions True False) unreachableWorld
          (startSession (modeOptions True False) unreachableWorld ''http://h/'') =
        \<lparr>visited = {''http://h/''}, queue = [], results = [],
         failedUrls = [\<lparr>fail_url = ''http://h/'', error = m, fail_parent = None\<rparr>],
         skippedUrls = [], robots = None,
         history = [Request ''http://h/'', Sleep 1000, Request ''http://h/'', Sleep 2000,
                    Request ''http://h/'', Sleep 3000, Request ''http://h/'']\<rparr>"
    using unrestricted_mode_outcomes
      [of "modeOptions True False"
          "startSession (modeOptions True False) unreachableWorld ''http://h/''"
          "\<lparr>url = ''http://h/'', depth = 0, parent = None\<rparr>" "[]" unreachableWorld]
    by (simp add: modeOptions_def unreachableWorld_def sampleWorld_def startSession_def Let_def
          newCrawler_def sleepDelay_def backoff_1_3)
  show ?thesis using a b c by blast
qed

text \<open>
  With \<open>ignoreRestrictions\<close> true a response with status 500 gives a page record after a
  single request: it is neither retried nor recorded as failed.
\<close>

theorem unrestricted_response_counterexample:
  "map page_url (results (crawl (modeOptions True False) (statusWorld 500) ''http://h/'')) =
     [''http://h/''] \<and>
   failedUrls (crawl (modeOptions True False) (statusWorld 500) ''http://h/'') = [] \<and>
   history (crawl (modeOptions True False) (statusWorld 500) ''http://h/'') =
     [Request ''http://h/'']"
  by (simp add: eval_simps modeOptions_def statusWorld_def)

text \<open>
  C5 (amended). With \<open>skipUnauthorized\<close> true and \<open>ignoreRestrictions\<close> false, a fetch
  answered with status 403 is requested once, with no retry and no back-off sleep, and the
  URL is recorded in \<open>skippedUrls\<close> with statusCode 403 and the reason
  \<open>Forbidden - Access denied\<close>, written with a hyphen-minus.
\<close>

theorem forbidden_is_skipped_without_retry:
  assumes "\<not> ignoreRestrictions opts" and "skipUnauthorized opts"
    and "net w (history s) (url it) = Responded r" and "status r = 403"
    and "queue s = it # rest" and "url it \<notin> visited s" and "depth it \<le> maxDepth opts"
    and "\<not> robotsBlocked opts s (url it)"
  shows "processItem opts w s =
           sleepDelay opts
             (s\<lparr>queue := rest, visited := insert (url it) (visited s),
                history := history s @ [Request (url it)],
                skippedUrls := skippedUrls s @
                  [\<lparr>skip_url = url it, reason = ''Forbidden - Access denied'',
                    skip_parent = parent it, statusCode = Some 403\<rparr>]\<rparr>)"
proof -
  let ?err = "\<lparr>message = statusMessage w 403, response_status = Some 403\<rparr>"
  have a: "axios_get opts w (history s) (url it) = Inl ?err"
    using assms(1-4) by (simp add: axios_get_def validateStatus_def)
  have b: "\<not> retryable opts ?err"
    using assms(1,2) by (simp add: retryable_def statusIn_def noRetryStatuses_def)
  have c: "makeRequest opts w (url it) 0 (history (s\<lparr>queue := rest\<rparr>)) =
             (Inl ?err, history s @ [Request (url it)])"
    using makeRequest_noRetry [OF a b] by simp
  have d: "handleCrawlError opts ?err u p s' =
             (True, pushSkipped s' u ''Forbidden - Access denied'' p (Some 403))" for u p s'
    using assms(1,2)
    by (simp add: handleCrawlError_def statusIn_def authRelatedCodes_def lookupReason_def
          authReasons_def)
  show ?thesis
    using processItem_crawls [OF assms(5-8), of w] crawlItem_thrown [OF c] assms(1)
    by (simp add: d pushSkipped_def)
qed

theorem forbidden_is_skipped_without_retry_witness:
  "processItem (modeOptions False True) (statusWorld 403)
     (startSession (modeOptions False True) (statusWorld 403) ''http://h/'') =
   \<lparr>visited = {''http://h/''}, queue = [], results = [], failedUrls = [],
    skippedUrls = [\<lparr>skip_url = ''http://h/'', reason = ''Forbidden - Access denied'',
                    skip_parent = None, statusCode = Some 403\<rparr>],
    robots = None, history = [Request ''http://h/'']\<rparr>"
  using forbidden_is_skipped_without_retry
    [of "modeOptions False True" "statusWorld 403"
        "startSession (modeOptions False True) (statusWorld 403) ''http://h/''"
        "\<lparr>url = ''http://h/'', depth = 0, parent = None\<rparr>"
        "\<lparr>status = 403, data = Extracted [] 0\<rparr>" "[]"]
  by (simp add: modeOptions_def statusWorld_def sampleWorld_def startSession_def loadRobotsTxt_def Let_def newCrawler_def robotsBlocked_def
        sleepDelay_def)

text \<open>
  The reason recorded is not the string of the claim, which has an en dash.
\<close>

theorem forbidden_reason_counterexample:
  "map reason (skippedUrls (crawl (modeOptions False True) (statusWorld 403) ''http://h/'')) =
     [''Forbidden - Access denied''] \<and>
   map reason (skippedUrls (crawl (modeOptions False True) (statusWorld 403) ''http://h/'')) \<noteq>
     [specReason403]"
  by (simp add: eval_simps modeOptions_def statusWorld_def sampleWorld_def specReason403_def)

text \<open>
  C6. With \<open>ignoreRestrictions\<close> and \<open>skipUnauthorized\<close> both false and a retry budget of
  3, a URL whose every attempt is answered with status 500 is requested four times: the
  first attempt and exactly three retries, the n-th retry after a sleep of 1000 * n ms.
  It is then recorded in \<open>failedUrls\<close>, and no page or skip record is written.
\<close>

theorem status_500_fails_after_three_retries:
  assumes "\<not> ignoreRestrictions opts" and "\<not> skipUnauthorized opts" and "retries opts = 3"
    and "\<And>h. \<exists>r. net w h (url it) = Responded r \<and> status r = 500"
    and "queue s = it # rest" and "url it \<notin> visited s" and "depth it \<le> maxDepth opts"
    and "\<not> robotsBlocked opts s (url it)"
  shows "processItem opts w s =
           sleepDelay opts
             (s\<lparr>queue := rest, visited := insert (url it) (visited s),
                history := history s @
                  [Request (url it), Sleep (1000 * 1), Request (url it), Sleep (1000 * 2),
                   Request (url it), Sleep (1000 * 3), Request (url it)],
                failedUrls := failedUrls s @
                  [\<lparr>fail_url = url it, error = statusMessage w 500, fail_parent = parent it\<rparr>]\<rparr>)"
proof -
  let ?P = "\<lambda>err. err = \<lparr>message = statusMessage w 500, response_status = Some 500\<rparr>"
  have a: "\<exists>err. axios_get opts w h' (url it) = Inl err \<and> retryable opts err \<and> ?P err" for h'
    using assms(1,2) assms(4) [of h']
    by (auto simp add: axios_get_def validateStatus_def retryable_def statusIn_def noRetryStatuses_def)
  have b: "?P err \<Longrightarrow> ignoreRestrictions opts \<or> handleCrawlError opts err (url it) (parent it) s' = (False, s')"
    for err s'
    using assms(2) by (simp add: handleCrawlError_def)
  from crawlItem_exhausted [of opts w "url it" ?P "parent it" "depth it" "s\<lparr>queue := rest\<rparr>", OF a b]
  have "crawlItem opts w (url it) (depth it) (parent it) (s\<lparr>queue := rest\<rparr>) =
          s\<lparr>queue := rest, visited := insert (url it) (visited s),
            history := history s @ backoff (url it) 1 3 @ [Request (url it)],
            failedUrls := failedUrls s @
              [\<lparr>fail_url = url it, error = statusMessage w 500, fail_parent = parent it\<rparr>]\<rparr>"
    using assms(3) by simp
  then show ?thesis
    using processItem_crawls [OF assms(5-8), of w] by (simp add: backoff_1_3)
qed


theorem status_500_fails_after_three_retries_witness:
  "processItem (modeOptions False False) (statusWorld 500)
     (startSession (modeOptions False False) (statusWorld 500) ''http://h/'') =
   \<lparr>visited = {''http://h/''}, queue = [], results = [],
    failedUrls = [\<lparr>fail_url = ''http://h/'', error = ''Request failed'', fail_parent = None\<rparr>],
    skippedUrls = [], robots = None,
    history = [Request ''http://h/'', Sleep 1000, Request ''http://h/'', Sleep 2000,
               Request ''http://h/'', Sleep 3000, Request ''http://h/'']\<rparr>"
  using status_500_fails_after_three_retries
    [of "modeOptions False False" "statusWorld 500"
        "\<lparr>url = ''http://h/'', depth = 0, parent = None\<rparr>"
        "startSession (modeOptions False False) (statusWorld 500) ''http://h/''" "[]"]
  by (simp add: modeOptions_def statusWorld_def sampleWorld_def startSession_def loadRobotsTxt_def Let_def newCrawler_def robotsBlocked_def
        sleepDelay_def)

text \<open>
  C7 (amended). \<open>addLinksToQueue\<close> admits a link exactly when its URL is not visited, not
  already queued and not in the skip list, whatever its depth and however many pages are
  stored: the queue it leaves is the old queue followed by one item for each such link,
  in the order of discovery, a link that is repeated being admitted once. The limits act
  on dequeue: an item deeper than \<open>maxDepth\<close> is dropped by \<open>processQueue\<close> without a fetch,
  and once \<open>maxPages\<close> pages are stored the loop stops.
\<close>

theorem admission_rule:
  "addLinksToQueue [l] d p s =
     (if l \<notin> visited s \<and> l \<notin> set (map url (queue s)) \<and> l \<notin> set (map skip_url (skippedUrls s))
      then s\<lparr>queue := queue s @ [\<lparr>url = l, depth = d, parent = Some p\<rparr>]\<rparr> else s) \<and>
   queue (addLinksToQueue ls d p s) =
     queue s @
     map (\<lambda>l. \<lparr>url = l, depth = d, parent = Some p\<rparr>)
       (filter (\<lambda>l. l \<notin> visited s \<and> l \<notin> set (map url (queue s)) \<and>
                     l \<notin> set (map skip_url (skippedUrls s)))
          (firstOccurrences ls)) \<and>
   (queue s = it # rest \<and> maxDepth opts < depth it \<longrightarrow>
      processItem opts w s = s\<lparr>queue := rest\<rparr>) \<and>
   (maxPages opts \<le> int (length (results s)) \<longrightarrow> processQueue opts w s = s)"
proof (intro conjI impI)
  show "addLinksToQueue [l] d p s =
     (if l \<notin> visited s \<and> l \<notin> set (map url (queue s)) \<and> l \<notin> set (map skip_url (skippedUrls s))
      then s\<lparr>queue := queue s @ [\<lparr>url = l, depth = d, parent = Some p\<rparr>]\<rparr> else s)"
    by (simp add: isInQueue_def isSkipped_def)
  show "queue (addLinksToQueue ls d p s) =
     queue s @
     map (\<lambda>l. \<lparr>url = l, depth = d, parent = Some p\<rparr>)
       (filter (\<lambda>l. l \<notin> visited s \<and> l \<notin> set (map url (queue s)) \<and>
                     l \<notin> set (map skip_url (skippedUrls s)))
          (firstOccurrences ls))"
    using addLinksToQueue_queue [of ls d p s] by (simp add: isInQueue_def isSkipped_def)
  show "processItem opts w s = s\<lparr>queue := rest\<rparr>"
    if "queue s = it # rest \<and> maxDepth opts < depth it"
    using that by (simp add: processItem_def Let_def)
  show "processQueue opts w s = s" if "maxPages opts \<le> int (length (results s))"
    using that by (intro processQueue_stop) simp
qed

theorem admission_rule_witness:
  "queue (addLinksToQueue [''http://h/a'', ''http://h/b'', ''http://h/'', ''http://h/a''] 9 ''http://h/''
      (newCrawler\<lparr>visited := {''http://h/''},
         queue := [\<lparr>url = ''http://h/b'', depth = 1, parent = None\<rparr>]\<rparr>)) =
     [\<lparr>url = ''http://h/b'', depth = 1, parent = None\<rparr>,
      \<lparr>url = ''http://h/a'', depth = 9, parent = Some ''http://h/''\<rparr>] \<and>
   processItem ((modeOptions False False)\<lparr>maxDepth := 0\<rparr>) treeWorld
     (newCrawler\<lparr>queue := [\<lparr>url = ''http://h/b'', depth = 1, parent = None\<rparr>]\<rparr>) =
     newCrawler \<and>
   processQueue ((modeOptions False False)\<lparr>maxPages := 0\<rparr>) treeWorld
     (newCrawler\<lparr>queue := [\<lparr>url = ''http://h/b'', depth = 1, parent = None\<rparr>]\<rparr>) =
     newCrawler\<lparr>queue := [\<lparr>url = ''http://h/b'', depth = 1, parent = None\<rparr>]\<rparr>"
proof -
  have a: "queue (addLinksToQueue [''http://h/a'', ''http://h/b'', ''http://h/'', ''http://h/a''] 9 ''http://h/''
      (newCrawler\<lparr>visited := {''http://h/''},
         queue := [\<lparr>url = ''http://h/b'', depth = 1, parent = None\<rparr>]\<rparr>)) =
     [\<lparr>url = ''http://h/b'', depth = 1, parent = None\<rparr>,
      \<lparr>url = ''http://h/a'', depth = 9, parent = Some ''http://h/''\<rparr>]"
    using admission_rule
      [of "''http://h/a''" 9 "''http://h/''"
        "newCrawler\<lparr>visited := {''http://h/''},
           queue := [\<lparr>url = ''http://h/b'', depth = 1, parent = None\<rparr>]\<rparr>"
        "[''http://h/a'', ''http://h/b'', ''http://h/'', ''http://h/a'']"
        "\<lparr>url = ''http://h/b'', depth = 1, parent = None\<rparr>" "[]"
        "(modeOptions False False)\<lparr>maxDepth := 0\<rparr>" treeWorld]
    by (simp add: newCrawler_def firstOccurrences_def isInQueue_def isSkipped_def)
  show ?thesis
    using a
      admission_rule [of "''http://h/a''" 9 "''http://h/''"
        "newCrawler\<lparr>queue := [\<lparr>url = ''http://h/b'', depth = 1, parent = None\<rparr>]\<rparr>"
        "[''http://h/a'']"
        "\<lparr>url = ''http://h/b'', depth = 1, parent = None\<rparr>" "[]"
        "(modeOptions False False)\<lparr>maxDepth := 0\<rparr>" treeWorld]
      admission_rule [of "''http://h/a''" 9 "''http://h/''"
        "newCrawler\<lparr>queue := [\<lparr>url = ''http://h/b'', depth = 1, parent = None\<rparr>]\<rparr>"
        "[''http://h/a'']"
        "\<lparr>url = ''http://h/b'', depth = 1, parent = None\<rparr>" "[]"
        "(modeOptions False False)\<lparr>maxPages := 0\<rparr>" treeWorld]
    by (simp add: newCrawler_def modeOptions_def firstOccurrences_def isInQueue_def isSkipped_def)
qed

text \<open>
  With \<open>maxPages = 1\<close> and \<open>maxDepth = 0\<close> the links of the home page are queued at depth 1
  after the only allowed page has been stored.
\<close>

theorem admission_ignores_limits_counterexample:
  "length (results (crawl ((modeOptions True False)\<lparr>maxPages := 1, maxDepth := 0\<rparr>) treeWorld ''http://h/'')) = 1 \<and>
   map url (queue (crawl ((modeOptions True False)\<lparr>maxPages := 1, maxDepth := 0\<rparr>) treeWorld ''http://h/'')) =
     [''http://h/a'', ''http://h/b''] \<and>
   map depth (queue (crawl ((modeOptions True False)\<lparr>maxPages := 1, maxDepth := 0\<rparr>) treeWorld ''http://h/'')) =
     [1, 1]"
  by (simp add: eval_simps modeOptions_def treeWorld_def treeNet_def)

text \<open>
  C8 (amended). A dequeued URL is marked visited by \<open>crawlPage\<close>, ahead of the fetch and
  whatever the fetch returns, and only when the item has passed the visited, depth and
  robots guards of \<open>processQueue\<close>. An item dropped by the depth guard or blocked by
  robots.txt leaves the visited set as it was.
\<close>

theorem visited_marked_by_crawlPage:
  "visited (snd (crawlPage opts w u d p s)) = insert u (visited s) \<and>
   (queue s = it # rest \<and> url it \<notin> visited s \<and> depth it \<le> maxDepth opts \<and>
    \<not> robotsBlocked opts s (url it) \<longrightarrow>
      visited (processItem opts w s) = insert (url it) (visited s)) \<and>
   (queue s = it # rest \<and> (maxDepth opts < depth it \<or> robotsBlocked opts s (url it)) \<longrightarrow>
      visited (processItem opts w s) = visited s)"
proof (intro conjI impI)
  show "visited (snd (crawlPage opts w u d p s)) = insert u (visited s)"
    by (rule crawlPage_fields(6))
  show "visited (processItem opts w s) = insert (url it) (visited s)"
    if "queue s = it # rest \<and> url it \<notin> visited s \<and> depth it \<le> maxDepth opts \<and>
        \<not> robotsBlocked opts s (url it)"
    using that processItem_crawls [of s it rest opts w]
    by (simp add: sleepDelay_fields crawlItem_visited)
  show "visited (processItem opts w s) = visited s"
    if "queue s = it # rest \<and> (maxDepth opts < depth it \<or> robotsBlocked opts s (url it))"
    using that by (auto simp add: processItem_def Let_def pushSkipped_def)
qed

theorem visited_marked_by_crawlPage_witness:
  "visited (processItem ((modeOptions False False)\<lparr>respectRobots := True\<rparr>) treeWorld
      (startSession ((modeOptions False False)\<lparr>respectRobots := True\<rparr>) treeWorld ''http://h/'')) =
     {''http://h/''} \<and>
   visited (processItem ((modeOptions False False)\<lparr>respectRobots := True\<rparr>) treeWorld
      (startSession ((modeOptions False False)\<lparr>respectRobots := True\<rparr>) treeWorld ''http://h/a'')) =
     {}"
  using
    visited_marked_by_crawlPage
      [of "(modeOptions False False)\<lparr>respectRobots := True\<rparr>" treeWorld "''http://h/''" 0 None
        "startSession ((modeOptions False False)\<lparr>respectRobots := True\<rparr>) treeWorld ''http://h/''"
        "\<lparr>url = ''http://h/'', depth = 0, parent = None\<rparr>" "[]"]
    visited_marked_by_crawlPage
      [of "(modeOptions False False)\<lparr>respectRobots := True\<rparr>" treeWorld "''http://h/a''" 0 None
        "startSession ((modeOptions False False)\<lparr>respectRobots := True\<rparr>) treeWorld ''http://h/a''"
        "\<lparr>url = ''http://h/a'', depth = 0, parent = None\<rparr>" "[]"]
  by (simp add: modeOptions_def startSession_def loadRobotsTxt_def Let_def newCrawler_def
        treeWorld_def treeNet_def sampleWorld_def robotsBlocked_def)

text \<open>
  With robots.txt respected, \<open>/a\<close> is dequeued and recorded as blocked, and is never marked
  visited.
\<close>

theorem robots_blocked_not_visited_counterexample:
  "''http://h/a'' \<notin> visited (crawl ((modeOptions False False)\<lparr>respectRobots := True\<rparr>) treeWorld ''http://h/'') \<and>
   skippedUrls (crawl ((modeOptions False False)\<lparr>respectRobots := True\<rparr>) treeWorld ''http://h/'') =
     [\<lparr>skip_url = ''http://h/a'', reason = ''robots.txt blocked'',
       skip_parent = Some ''http://h/'', statusCode = None\<rparr>] \<and>
   queue (crawl ((modeOptions False False)\<lparr>respectRobots := True\<rparr>) treeWorld ''http://h/'') = []"
  by (simp add: eval_simps modeOptions_def treeWorld_def sampleWorld_def treeNet_def)

text \<open>
  C9. The queue is first-in first-out: an iteration removes the head of the queue, keeps
  the rest in order and appends what it admits. So for a seed S whose page links to A and
  B, where A links to C and B and C have no links, all four distinct and every fetch
  answered with status 200 and a body that is extracted, within the limits and not
  blocked by robots.txt, the pages are stored in the order S, A, B, C, at depths
  0, 1, 1, 2: C is not processed before B.
\<close>

theorem breadth_first_order:
  "(\<forall>s it rest. queue s = it # rest \<longrightarrow> (\<exists>new. queue (processItem opts w s) = rest @ new)) \<and>
   (distinct [S, A, B, C] \<and>
    (\<forall>h. net w h S = Responded \<lparr>status = 200, data = Extracted [A, B] nS\<rparr>) \<and>
    (\<forall>h. net w h A = Responded \<lparr>status = 200, data = Extracted [C] nA\<rparr>) \<and>
    (\<forall>h. net w h B = Responded \<lparr>status = 200, data = Extracted [] nB\<rparr>) \<and>
    (\<forall>h. net w h C = Responded \<lparr>status = 200, data = Extracted [] nC\<rparr>) \<and>
    4 \<le> maxPages opts \<and> 2 \<le> maxDepth opts \<and>
    (\<forall>u. \<not> robotsBlocked opts (startSession opts w S) u) \<longrightarrow>
    map page_url (results (crawl opts w S)) = [S, A, B, C] \<and>
    map page_depth (results (crawl opts w S)) = [0, 1, 1, 2])"
proof (intro conjI allI impI)
  show "\<exists>new. queue (processItem opts w s) = rest @ new" if "queue s = it # rest" for s it rest
    using that by (rule processItem_fifo)
next
  assume hyp: "distinct [S, A, B, C] \<and>
    (\<forall>h. net w h S = Responded \<lparr>status = 200, data = Extracted [A, B] nS\<rparr>) \<and>
    (\<forall>h. net w h A = Responded \<lparr>status = 200, data = Extracted [C] nA\<rparr>) \<and>
    (\<forall>h. net w h B = Responded \<lparr>status = 200, data = Extracted [] nB\<rparr>) \<and>
    (\<forall>h. net w h C = Responded \<lparr>status = 200, data = Extracted [] nC\<rparr>) \<and>
    4 \<le> maxPages opts \<and> 2 \<le> maxDepth opts \<and>
    (\<forall>u. \<not> robotsBlocked opts (startSession opts w S) u)"
  define R where "R = robots (startSession opts w S)"
  define st where "st = (\<lambda>v q rs h.
    \<lparr>visited = v, queue = q, results = rs, failedUrls = [], skippedUrls = [], robots = R,
     history = h\<rparr>)"
  define pg where "pg = (\<lambda>u d p ls n.
    \<lparr>page_url = u, page_depth = d, page_parent = p, links = ls, wordCount = n\<rparr>)"
  have nb: "\<not> robotsBlocked opts (st v q rs h) u" for v q rs h u
    using hyp by (auto simp add: robotsBlocked_def st_def R_def)
  have v200: "validateStatus opts 200" by (simp add: validateStatus_2xx)
  have sd: "\<exists>h'. sleepDelay opts (st v q rs h) = st v q rs h'" for v q rs h
    by (simp add: sleepDelay_def st_def)
  have step: "processItem opts w (st v (\<lparr>url = u, depth = d, parent = p\<rparr> # rest) rs h) =
                sleepDelay opts
                  (addLinksToQueue ls (d + 1) u
                     (st (insert u v) rest (rs @ [pg u d p ls n]) (h @ [Request u])))"
    if "u \<notin> v" and "d \<le> maxDepth opts"
      and "\<forall>h. net w h u = Responded \<lparr>status = 200, data = Extracted ls n\<rparr>"
    for u d p rest v rs h ls n
  proof -
    let ?s = "st v (\<lparr>url = u, depth = d, parent = p\<rparr> # rest) rs h"
    have n: "net w (history (?s\<lparr>queue := rest\<rparr>)) u = Responded \<lparr>status = 200, data = Extracted ls n\<rparr>"
      using that(3) by simp
    have "processItem opts w ?s = sleepDelay opts (crawlItem opts w u d p (?s\<lparr>queue := rest\<rparr>))"
      using processItem_crawls [of ?s "\<lparr>url = u, depth = d, parent = p\<rparr>" rest opts w] that nb
      by (simp add: st_def)
    then show ?thesis
      using crawlItem_resolved [OF n, where opts = opts and ls = ls and n = n and d = d and p = p]
        v200 by (simp add: st_def pg_def)
  qed
  define h0 where "h0 = history (startSession opts w S)"
  have s0: "startSession opts w S = st {} [\<lparr>url = S, depth = 0, parent = None\<rparr>] [] h0"
    unfolding st_def R_def h0_def by (rule startSession_shape)
  have al1: "addLinksToQueue [A, B] (0 + 1) S (st (insert S {}) [] ([] @ [pg S 0 None [A, B] nS]) (h0 @ [Request S])) =
          st {S} [\<lparr>url = A, depth = 1, parent = Some S\<rparr>, \<lparr>url = B, depth = 1, parent = Some S\<rparr>]
            [pg S 0 None [A, B] nS] (h0 @ [Request S])"
    using hyp by (auto simp add: st_def isInQueue_def isSkipped_def)
  have g1: "S \<notin> {}" "0 \<le> maxDepth opts"
    "\<forall>h. net w h S = Responded \<lparr>status = 200, data = Extracted [A, B] nS\<rparr>"
    using hyp by auto
  obtain h1 where s1: "processItem opts w (st {} [\<lparr>url = S, depth = 0, parent = None\<rparr>] [] h0) =
      st {S} [\<lparr>url = A, depth = 1, parent = Some S\<rparr>, \<lparr>url = B, depth = 1, parent = Some S\<rparr>]
        [pg S 0 None [A, B] nS] h1"
    using sd unfolding step [OF g1] al1 by blast
  have al2: "addLinksToQueue [C] (1 + 1) A
          (st (insert A {S}) [\<lparr>url = B, depth = 1, parent = Some S\<rparr>]
             ([pg S 0 None [A, B] nS] @ [pg A 1 (Some S) [C] nA]) (h1 @ [Request A])) =
        st {A, S} [\<lparr>url = B, depth = 1, parent = Some S\<rparr>, \<lparr>url = C, depth = 2, parent = Some A\<rparr>]
          [pg S 0 None [A, B] nS, pg A 1 (Some S) [C] nA] (h1 @ [Request A])"
    using hyp by (auto simp add: st_def isInQueue_def isSkipped_def)
  have g2: "A \<notin> {S}" "1 \<le> maxDepth opts"
    "\<forall>h. net w h A = Responded \<lparr>status = 200, data = Extracted [C] nA\<rparr>"
    using hyp by auto
  obtain h2 where s2: "processItem opts w
      (st {S} [\<lparr>url = A, depth = 1, parent = Some S\<rparr>, \<lparr>url = B, depth = 1, parent = Some S\<rparr>]
        [pg S 0 None [A, B] nS] h1) =
      st {A, S} [\<lparr>url = B, depth = 1, parent = Some S\<rparr>, \<lparr>url = C, depth = 2, parent = Some A\<rparr>]
        [pg S 0 None [A, B] nS, pg A 1 (Some S) [C] nA] h2"
    using sd unfolding step [OF g2] al2 by blast
  have al3: "addLinksToQueue [] (1 + 1) B
          (st (insert B {A, S}) [\<lparr>url = C, depth = 2, parent = Some A\<rparr>]
             ([pg S 0 None [A, B] nS, pg A 1 (Some S) [C] nA] @ [pg B 1 (Some S) [] nB]) (h2 @ [Request B])) =
        st {B, A, S} [\<lparr>url = C, depth = 2, parent = Some A\<rparr>]
          [pg S 0 None [A, B] nS, pg A 1 (Some S) [C] nA, pg B 1 (Some S) [] nB] (h2 @ [Request B])"
    by (simp add: st_def)
  have g3: "B \<notin> {A, S}" "1 \<le> maxDepth opts"
    "\<forall>h. net w h B = Responded \<lparr>status = 200, data = Extracted [] nB\<rparr>"
    using hyp by auto
  obtain h3 where s3: "processItem opts w
      (st {A, S} [\<lparr>url = B, depth = 1, parent = Some S\<rparr>, \<lparr>url = C, depth = 2, parent = Some A\<rparr>]
        [pg S 0 None [A, B] nS, pg A 1 (Some S) [C] nA] h2) =
      st {B, A, S} [\<lparr>url = C, depth = 2, parent = Some A\<rparr>]
        [pg S 0 None [A, B] nS, pg A 1 (Some S) [C] nA, pg B 1 (Some S) [] nB] h3"
    using sd unfolding step [OF g3] al3 by blast
  have al4: "addLinksToQueue [] (2 + 1) C
          (st (insert C {B, A, S}) []
             ([pg S 0 None [A, B] nS, pg A 1 (Some S) [C] nA, pg B 1 (Some S) [] nB] @ [pg C 2 (Some A) [] nC])
             (h3 @ [Request C])) =
        st {C, B, A, S} []
          [pg S 0 None [A, B] nS, pg A 1 (Some S) [C] nA, pg B 1 (Some S) [] nB, pg C 2 (Some A) [] nC]
          (h3 @ [Request C])"
    by (simp add: st_def)
  have g4: "C \<notin> {B, A, S}" "2 \<le> maxDepth opts"
    "\<forall>h. net w h C = Responded \<lparr>status = 200, data = Extracted [] nC\<rparr>"
    using hyp by auto
  obtain h4 where s4: "processItem opts w
      (st {B, A, S} [\<lparr>url = C, depth = 2, parent = Some A\<rparr>]
        [pg S 0 None [A, B] nS, pg A 1 (Some S) [C] nA, pg B 1 (Some S) [] nB] h3) =
      st {C, B, A, S} []
        [pg S 0 None [A, B] nS, pg A 1 (Some S) [C] nA, pg B 1 (Some S) [] nB, pg C 2 (Some A) [] nC] h4"
    using sd unfolding step [OF g4] al4 by blast
  have mp: "0 < maxPages opts" "1 < maxPages opts" "2 < maxPages opts" "3 < maxPages opts"
    using hyp by simp_all
  have c0: "crawl opts w S = processQueue opts w (processItem opts w (st {} [\<lparr>url = S, depth = 0, parent = None\<rparr>] [] h0))"
    unfolding crawl_def s0 using mp by (subst processQueue_continue) (simp_all add: st_def)
  have c1: "crawl opts w S = processQueue opts w (st {A, S} [\<lparr>url = B, depth = 1, parent = Some S\<rparr>, \<lparr>url = C, depth = 2, parent = Some A\<rparr>]
        [pg S 0 None [A, B] nS, pg A 1 (Some S) [C] nA] h2)"
    unfolding c0 s1 using mp by (subst processQueue_continue) (simp_all add: st_def s2 [unfolded st_def])
  have c2: "crawl opts w S = processQueue opts w (st {B, A, S} [\<lparr>url = C, depth = 2, parent = Some A\<rparr>]
        [pg S 0 None [A, B] nS, pg A 1 (Some S) [C] nA, pg B 1 (Some S) [] nB] h3)"
    unfolding c1 using mp by (subst processQueue_continue) (simp_all add: st_def s3 [unfolded st_def])
  have c3: "crawl opts w S = processQueue opts w (st {C, B, A, S} []
        [pg S 0 None [A, B] nS, pg A 1 (Some S) [C] nA, pg B 1 (Some S) [] nB, pg C 2 (Some A) [] nC] h4)"
    unfolding c2 using mp by (subst processQueue_continue) (simp_all add: st_def s4 [unfolded st_def])
  have c4: "crawl opts w S = st {C, B, A, S} []
        [pg S 0 None [A, B] nS, pg A 1 (Some S) [C] nA, pg B 1 (Some S) [] nB, pg C 2 (Some A) [] nC] h4"
    unfolding c3 by (subst processQueue_stop) (simp_all add: st_def)
  show "map page_url (results (crawl opts w S)) = [S, A, B, C]"
    unfolding c4 by (simp add: st_def pg_def)
  show "map page_depth (results (crawl opts w S)) = [0, 1, 1, 2]"
    unfolding c4 by (simp add: st_def pg_def)
qed

theorem breadth_first_order_witness:
  "map page_url (results (crawl (modeOptions True False) treeWorld ''http://h/'')) =
     [''http://h/'', ''http://h/a'', ''http://h/b'', ''http://h/c''] \<and>
   map page_depth (results (crawl (modeOptions True False) treeWorld ''http://h/'')) = [0, 1, 1, 2]"
  using breadth_first_order
    [of "modeOptions True False" treeWorld "''http://h/''" "''http://h/a''" "''http://h/b''"
        "''http://h/c''" 30 10 20 20]
  by (simp add: modeOptions_def treeWorld_def sampleWorld_def treeNet_def robotsBlocked_def)




end
